theory Spec2Isabelle
  imports Main
begin

section \<open>Text primitives of VCF\_SampleFilter\_V1\_1.cpp\<close>

text \<open>
  Strings are \<^typ>\<open>string\<close> (byte lists), as \<^verbatim>\<open>std::string\<close> is.
  Column positions are \<^verbatim>\<open>int\<close> in the source; they are only ever produced
  by counting the fields of one line upwards from zero, so they are modelled as
  \<^typ>\<open>nat\<close> (a line of more than \<open>2^31\<close> fields is outside the model).
\<close>

abbreviation TAB :: char where
  "TAB \<equiv> CHR 0x09"

abbreviation NEWLINE :: char where
  "NEWLINE \<equiv> CHR 0x0A"

text \<open>
  \<^verbatim>\<open>::isspace\<close> in the "C" locale (the program never calls \<^verbatim>\<open>setlocale\<close>):
  space, \<^verbatim>\<open>\t\<close>, \<^verbatim>\<open>\n\<close>, \<^verbatim>\<open>\v\<close>, \<^verbatim>\<open>\f\<close>, \<^verbatim>\<open>\r\<close>.
\<close>

definition isspace :: "char \<Rightarrow> bool" where
  "isspace c = (c = CHR 0x20 \<or> c = CHR 0x09 \<or> c = CHR 0x0A \<or> c = CHR 0x0B
                \<or> c = CHR 0x0C \<or> c = CHR 0x0D)"

text \<open>
  One call of \<^verbatim>\<open>std::getline(stream, token, delim)\<close> on a stream whose unread
  content is \<open>s\<close>: at end of input nothing is extracted and the call fails
  (\<open>None\<close>); otherwise the characters up to the next delimiter (or to the end) are the
  token, and the delimiter, when there is one, is consumed and not stored.
\<close>

definition getline :: "char \<Rightarrow> string \<Rightarrow> (string \<times> string) option" where
  "getline delim s =
     (if s = [] then None
      else Some (takeWhile (\<lambda>c. c \<noteq> delim) s, drop 1 (dropWhile (\<lambda>c. c \<noteq> delim) s)))"

text \<open>
  The loop \<^verbatim>\<open>while (std::getline(iss, token, delim)) fields.push_back(token);\<close>
\<close>

function read_tokens :: "char \<Rightarrow> string \<Rightarrow> string list" where
  "read_tokens delim s =
     (case getline delim s of
        None \<Rightarrow> []
      | Some (token, rest) \<Rightarrow> token # read_tokens delim rest)"
  by pat_completeness auto
termination
proof (relation "measure (\<lambda>(delim, s). length s)")
  show "wf (measure (\<lambda>(delim, s). length s))"
    by simp
next
  fix delim :: char and s :: string and x2 :: "string \<times> string" and token rest :: string
  assume g: "getline delim s = Some x2" and x2: "(token, rest) = x2"
  from g x2 have ne: "s \<noteq> []" and rest: "rest = drop 1 (dropWhile (\<lambda>c. c \<noteq> delim) s)"
    by (auto simp: getline_def split: if_splits)
  have "length (dropWhile (\<lambda>c. c \<noteq> delim) s) \<le> length s"
    by (rule length_dropWhile_le)
  moreover from ne have "0 < length s"
    by simp
  ultimately have "length rest < length s"
    unfolding rest length_drop by arith
  then show "((delim, rest), (delim, s)) \<in> measure (\<lambda>(delim, s). length s)"
    by simp
qed

declare read_tokens.simps [simp del]

text \<open>
  The output loops: \<^verbatim>\<open>for (i = 0; i < n; i++) { if (i > 0) oss << "\t"; oss << fields[i]; }\<close>
  Both callers keep \<open>n\<close> within the vector.
\<close>

definition write_fields :: "string list \<Rightarrow> nat \<Rightarrow> string" where
  "write_fields fields n =
     foldl (\<lambda>oss i. oss @ (if 0 < i then [TAB] else []) @ fields ! i) [] [0..<n]"

section \<open>Target samples (load\_samples)\<close>

text \<open>
  The exceptions of the program, all \<^verbatim>\<open>std::runtime_error\<close>, told apart by message:
  "Cannot open sample file: ...", "No samples found in sample file",
  "FORMAT column not found in header", "No matching samples found in VCF header".
\<close>

datatype error =
    CannotOpenSampleFile
  | NoSamplesFound
  | FormatColumnNotFound
  | NoMatchingSamples

text \<open>
  The body of the loop of \<^verbatim>\<open>load_samples\<close>: the erase/remove\_if idiom
  deletes every character for which \<^verbatim>\<open>::isspace\<close> holds, wherever it stands in the
  line, and the remainder is inserted when it is not empty.
\<close>

fun insert_samples :: "string list \<Rightarrow> string set \<Rightarrow> string set" where
  "insert_samples [] target_samples = target_samples"
| "insert_samples (sample # rest) target_samples =
     (let sample' = filter (\<lambda>c. \<not> isspace c) sample
      in insert_samples rest
           (if sample' \<noteq> [] then insert sample' target_samples else target_samples))"

text \<open>
  The sample file is \<open>None\<close> when it cannot be opened and \<open>Some content\<close> otherwise.
  \<^verbatim>\<open>target_samples\<close> is empty when the object is constructed.
\<close>

definition load_samples :: "string option \<Rightarrow> error + string set" where
  "load_samples file =
     (case file of
        None \<Rightarrow> Inl CannotOpenSampleFile
      | Some content \<Rightarrow>
          (let target_samples = insert_samples (read_tokens NEWLINE content) {}
           in if target_samples = {} then Inl NoSamplesFound else Inr target_samples))"

section \<open>Header (process\_header)\<close>

text \<open>
  \<^verbatim>\<open>for (int i = 0; i < fields.size(); i++) if (fields[i] == "FORMAT") { format_idx = i; break; }\<close>
  The sentinel \<open>-1\<close> of the source is \<open>None\<close>.
\<close>

function find_format :: "string list \<Rightarrow> nat \<Rightarrow> nat option" where
  "find_format fields i =
     (if i < length fields
      then (if fields ! i = ''FORMAT'' then Some i else find_format fields (i + 1))
      else None)"
  by pat_completeness auto
termination
  by (relation "measure (\<lambda>(fields, i). length fields - i)") auto

declare find_format.simps [simp del]

text \<open>
  \<^verbatim>\<open>for (int i = format_idx + 1; i < fields.size(); i++)\<close>, pushing onto the member
  \<^verbatim>\<open>sample_indices\<close> and onto the local \<^verbatim>\<open>output_fields\<close>.
\<close>

function select_samples ::
  "string set \<Rightarrow> string list \<Rightarrow> nat \<Rightarrow> nat list \<times> string list \<Rightarrow> nat list \<times> string list" where
  "select_samples target_samples fields i (sample_indices, output_fields) =
     (if i < length fields
      then (if fields ! i \<in> target_samples
            then select_samples target_samples fields (i + 1)
                   (sample_indices @ [i], output_fields @ [fields ! i])
            else select_samples target_samples fields (i + 1) (sample_indices, output_fields))
      else (sample_indices, output_fields))"
  by pat_completeness auto
termination
  by (relation "measure (\<lambda>(target_samples, fields, i, acc). length fields - i)") auto

declare select_samples.simps [simp del]

text \<open>
  \<^verbatim>\<open>process_header\<close> reads the member \<^verbatim>\<open>target_samples\<close> and appends to the
  member \<^verbatim>\<open>sample_indices\<close>: both are explicit here, and the indices are returned
  with the rewritten line. The emptiness test is on the member, not on what this call
  appended.
\<close>

definition process_header ::
  "string set \<Rightarrow> nat list \<Rightarrow> string \<Rightarrow> error + (nat list \<times> string)" where
  "process_header target_samples sample_indices header_line =
     (let fields = read_tokens TAB header_line
      in case find_format fields 0 of
           None \<Rightarrow> Inl FormatColumnNotFound
         | Some format_idx \<Rightarrow>
             (let (sample_indices', output_fields) =
                    select_samples target_samples fields (format_idx + 1)
                      (sample_indices, take (format_idx + 1) fields)
              in if sample_indices' = [] then Inl NoMatchingSamples
                 else Inr (sample_indices', write_fields output_fields (length output_fields))))"

section \<open>Data lines (process\_data\_line)\<close>

definition process_data_line :: "nat list \<Rightarrow> string \<Rightarrow> string" where
  "process_data_line sample_indices line =
     (let fields = read_tokens TAB line
      in if length fields < 9 then line
         else foldl (\<lambda>oss idx. oss @ [TAB] @ (if idx < length fields then fields ! idx else ''.''))
                (write_fields fields 9) sample_indices)"

section \<open>The worker's treatment of one line\<close>

text \<open>
  Lines 260 to 269 of \<^verbatim>\<open>worker_thread\<close>. \<^verbatim>\<open>line.find("#CHROM") == 0\<close> holds
  exactly when the line starts with these six characters.
\<close>

definition process_line ::
  "string set \<Rightarrow> nat list \<Rightarrow> string \<Rightarrow> error + (nat list \<times> string)" where
  "process_line target_samples sample_indices line =
     (if line = [] \<or> hd line = CHR ''#''
      then (if take 6 line = ''#CHROM''
            then process_header target_samples sample_indices line
            else Inr (sample_indices, line))
      else Inr (sample_indices, process_data_line sample_indices line))"

section \<open>The pipeline (filter, reader\_thread, worker\_thread, writer\_thread)\<close>

definition MAX_QUEUE_SIZE :: nat where
  "MAX_QUEUE_SIZE = 1000"

text \<open>
  Where a worker stands in its loop: about to take the input lock; holding a popped
  \<^verbatim>\<open>line\<close> with the lock released; holding its \<^verbatim>\<open>processed_line\<close>, about to
  take the output lock; or out of the loop.
\<close>

datatype worker =
    Waiting
  | Holding string
  | Processed string
  | Exited

text \<open>
  The members of \<^verbatim>\<open>VCFSampleFilter\<close> that the threads share, with the state of the
  files: \<open>unread\<close> is what the reader has not read yet of the input (one entry per
  line; nothing when the input cannot be opened), \<open>out_file\<close> the lines written so
  far. \<open>aborted\<close> is set when an exception leaves a worker thread: nothing catches it
  there, so \<^verbatim>\<open>std::terminate\<close> ends the process. \<open>writer_exited\<close> is set when the
  writer leaves its loop by the \<^verbatim>\<open>break\<close>, \<open>writer_failed\<close> when it cannot create
  the output file: \<^verbatim>\<open>writer_thread\<close> catches that exception and returns without
  taking anything from the output queue.
\<close>

record pipeline =
  target_samples :: "string set"
  sample_indices :: "nat list"
  unread :: "string list"
  input_queue :: "string list"
  output_queue :: "string list"
  finished_reading :: bool
  finished_processing :: bool
  lines_processed :: nat
  workers :: "worker list"
  out_file :: "string list"
  writer_exited :: bool
  writer_failed :: bool
  aborted :: "error option"

text \<open>
  The atomic actions of the threads. Each critical section under a mutex is one action;
  a \<^verbatim>\<open>condition_variable::wait\<close> with a predicate is the action's guard (the action is
  not enabled while the predicate is false). Every execution of the program is a
  schedule of these actions; a schedule in which a thread whose predicate holds moves on
  need not be one of the program, which sets \<^verbatim>\<open>finished_reading\<close> and
  \<^verbatim>\<open>finished_processing\<close> and notifies without holding the mutex, so that a thread
  can miss the notification and stay blocked. What is proved of every schedule holds of
  every execution; nothing here says that a thread does move on.

  A worker's processing of its line happens outside both locks and is an action of its
  own, \<open>WorkerProcess\<close>: the line is processed with the indices as they are at that
  moment. With more than one worker nothing orders one worker's processing against
  another's, and nothing locks \<^verbatim>\<open>sample_indices\<close>, which \<^verbatim>\<open>process_header\<close>
  extends element by element and \<^verbatim>\<open>process_data_line\<close> reads: the outcome of a
  processing that overlaps another one is left open by \<open>WorkerProcessRaced\<close>, which
  carries the indices and the output line it ends with, whatever they are. (A process
  that such an overlap brings down has no later state, as after an exception.)
\<close>

datatype event =
    ReaderPush
  | ReaderFinish
  | WorkerPop nat
  | WorkerExit nat
  | WorkerProcess nat
  | WorkerProcessRaced nat "nat list" string
  | WorkerPush nat
  | MainSignal
  | WriterOpenFail
  | WriterPop
  | WriterExit

fun fire :: "event \<Rightarrow> pipeline \<Rightarrow> pipeline option" where
  "fire ReaderPush s =
     \<comment> \<open>\<^verbatim>\<open>read_regular_stream\<close>, \<^verbatim>\<open>read_gz_stream\<close>: one iteration\<close>
     (case unread s of
        [] \<Rightarrow> None
      | line # rest \<Rightarrow>
          if \<not> finished_reading s \<and> length (input_queue s) < MAX_QUEUE_SIZE
          then Some (s\<lparr>unread := rest, input_queue := input_queue s @ [line]\<rparr>)
          else None)"
| "fire ReaderFinish s =
     \<comment> \<open>\<^verbatim>\<open>reader_thread\<close>: end of input, \<^verbatim>\<open>finished_reading = true\<close>\<close>
     (if unread s = [] \<and> \<not> finished_reading s
      then Some (s\<lparr>finished_reading := True\<rparr>)
      else None)"
| "fire (WorkerPop i) s =
     \<comment> \<open>\<^verbatim>\<open>worker_thread\<close>, lines 243 to 257\<close>
     (if i < length (workers s) \<and> workers s ! i = Waiting
      then (case input_queue s of
              [] \<Rightarrow> None
            | line # rest \<Rightarrow>
                Some (s\<lparr>input_queue := rest, workers := (workers s)[i := Holding line]\<rparr>))
      else None)"
| "fire (WorkerExit i) s =
     \<comment> \<open>\<^verbatim>\<open>if (input_queue.empty() && finished_reading) break;\<close>\<close>
     (if i < length (workers s) \<and> workers s ! i = Waiting
         \<and> input_queue s = [] \<and> finished_reading s
      then Some (s\<lparr>workers := (workers s)[i := Exited]\<rparr>)
      else None)"
| "fire (WorkerProcess i) s =
     \<comment> \<open>\<^verbatim>\<open>worker_thread\<close>, lines 260 to 269\<close>
     (if i < length (workers s)
      then (case workers s ! i of
              Holding line \<Rightarrow>
                (case process_line (target_samples s) (sample_indices s) line of
                   Inl err \<Rightarrow> Some (s\<lparr>aborted := Some err\<rparr>)
                 | Inr (idxs, processed_line) \<Rightarrow>
                     Some (s\<lparr>sample_indices := idxs,
                             workers := (workers s)[i := Processed processed_line]\<rparr>))
            | _ \<Rightarrow> None)
      else None)"
| "fire (WorkerProcessRaced i idxs processed_line) s =
     \<comment> \<open>\<^verbatim>\<open>worker_thread\<close>, lines 260 to 269, overlapping another worker's\<close>
     (if i < length (workers s) \<and> 2 \<le> length (workers s)
      then (case workers s ! i of
              Holding line \<Rightarrow>
                Some (s\<lparr>sample_indices := idxs,
                        workers := (workers s)[i := Processed processed_line]\<rparr>)
            | _ \<Rightarrow> None)
      else None)"
| "fire (WorkerPush i) s =
     \<comment> \<open>\<^verbatim>\<open>worker_thread\<close>, lines 272 to 279\<close>
     (if i < length (workers s)
      then (case workers s ! i of
              Processed processed_line \<Rightarrow>
                if length (output_queue s) < MAX_QUEUE_SIZE
                then Some (s\<lparr>output_queue := output_queue s @ [processed_line],
                             workers := (workers s)[i := Waiting],
                             lines_processed := lines_processed s + 1\<rparr>)
                else None
            | _ \<Rightarrow> None)
      else None)"
| "fire MainSignal s =
     \<comment> \<open>\<^verbatim>\<open>filter\<close>: after joining the reader and every worker\<close>
     (if finished_reading s \<and> list_all (\<lambda>w. w = Exited) (workers s)
         \<and> \<not> finished_processing s
      then Some (s\<lparr>finished_processing := True\<rparr>)
      else None)"
| "fire WriterOpenFail s =
     \<comment> \<open>\<^verbatim>\<open>write_regular_stream\<close>, \<^verbatim>\<open>write_gz_stream\<close>: the output cannot be created\<close>
     (if \<not> writer_exited s \<and> \<not> writer_failed s \<and> out_file s = []
      then Some (s\<lparr>writer_failed := True\<rparr>)
      else None)"
| "fire WriterPop s =
     \<comment> \<open>\<^verbatim>\<open>write_regular_stream\<close>, \<^verbatim>\<open>write_gz_stream\<close>: one iteration\<close>
     (if writer_exited s \<or> writer_failed s then None
      else (case output_queue s of
              [] \<Rightarrow> None
            | line # rest \<Rightarrow>
                Some (s\<lparr>output_queue := rest, out_file := out_file s @ [line]\<rparr>)))"
| "fire WriterExit s =
     \<comment> \<open>\<^verbatim>\<open>if (output_queue.empty() && finished_processing) break;\<close>\<close>
     (if \<not> writer_exited s \<and> \<not> writer_failed s \<and> output_queue s = []
         \<and> finished_processing s
      then Some (s\<lparr>writer_exited := True\<rparr>)
      else None)"

definition step :: "event \<Rightarrow> pipeline \<Rightarrow> pipeline option" where
  "step e s = (if aborted s = None then fire e s else None)"

text \<open>A schedule is the list of actions in the order the threads take them.\<close>

fun run :: "event list \<Rightarrow> pipeline \<Rightarrow> pipeline option" where
  "run [] s = Some s"
| "run (e # es) s = (case step e s of None \<Rightarrow> None | Some s' \<Rightarrow> run es s')"

text \<open>The state in which \<^verbatim>\<open>filter\<close> starts the threads, once the samples are loaded.\<close>

definition start :: "string set \<Rightarrow> nat \<Rightarrow> string list \<Rightarrow> pipeline" where
  "start samples num_threads input =
     \<lparr>target_samples = samples, sample_indices = [], unread = input,
      input_queue = [], output_queue = [],
      finished_reading = False, finished_processing = False, lines_processed = 0,
      workers = replicate num_threads Waiting,
      out_file = [], writer_exited = False, writer_failed = False, aborted = None\<rparr>"

text \<open>
  \<^verbatim>\<open>filter\<close> up to the creation of the threads: an exception of \<^verbatim>\<open>load_samples\<close>
  leaves it before any thread exists.
\<close>

definition filter_vcf :: "string option \<Rightarrow> nat \<Rightarrow> string list \<Rightarrow> error + pipeline" where
  "filter_vcf sample_file num_threads input =
     (case load_samples sample_file of
        Inl err \<Rightarrow> Inl err
      | Inr samples \<Rightarrow> Inr (start samples num_threads input))"

section \<open>Notions of the specification\<close>

text \<open>Fields joined by single tabs.\<close>

fun join_tab :: "string list \<Rightarrow> string" where
  "join_tab [] = []"
| "join_tab [f] = f"
| "join_tab (f # g # fs) = f @ TAB # join_tab (g # fs)"

text \<open>The specification's error kinds (its section 7) for the program's exceptions.\<close>

datatype error_kind = ConfigError | FormatError | NoMatchError

fun kind_of :: "error \<Rightarrow> error_kind" where
  "kind_of CannotOpenSampleFile = ConfigError"
| "kind_of NoSamplesFound = ConfigError"
| "kind_of FormatColumnNotFound = FormatError"
| "kind_of NoMatchingSamples = NoMatchError"

text \<open>
  The specification's wording for the loader, "strips leading/trailing whitespace":
  whitespace is removed at both ends only.
\<close>

definition strip_ends :: "string \<Rightarrow> string" where
  "strip_ends s = rev (dropWhile isspace (rev (dropWhile isspace s)))"

text \<open>
  The output of the lines taken one after the other in input order, each by
  \<open>process_line\<close> with the indices the lines before it have left, up to the first
  exception.
\<close>

fun process_in_order :: "string set \<Rightarrow> nat list \<Rightarrow> string list \<Rightarrow> string list" where
  "process_in_order samples idxs [] = []"
| "process_in_order samples idxs (line # rest) =
     (case process_line samples idxs line of
        Inl err \<Rightarrow> []
      | Inr (idxs', processed_line) \<Rightarrow> processed_line # process_in_order samples idxs' rest)"

text \<open>What a worker makes of a line that is not routed to \<open>process_header\<close>.\<close>

definition pass_or_project :: "nat list \<Rightarrow> string \<Rightarrow> string" where
  "pass_or_project idxs line =
     (if line = [] \<or> hd line = CHR ''#'' then line else process_data_line idxs line)"

definition ends_with_tab :: "string \<Rightarrow> bool" where
  "ends_with_tab s = (s \<noteq> [] \<and> last s = TAB)"

section \<open>Invariants and history of the pipeline\<close>

text \<open>The output lines and the input lines a worker has in hand.\<close>

fun processed_of :: "worker \<Rightarrow> string list" where
  "processed_of (Processed processed_line) = [processed_line]"
| "processed_of w = []"

fun held_of :: "worker \<Rightarrow> string list" where
  "held_of (Holding line) = [line]"
| "held_of w = []"

text \<open>The number of records a worker has in hand, processed or not.\<close>

definition in_hand :: "worker \<Rightarrow> nat" where
  "in_hand w = length (held_of w) + length (processed_of w)"

text \<open>Every record of the input is in exactly one place.\<close>

definition records :: "pipeline \<Rightarrow> nat" where
  "records s =
     length (unread s) + length (input_queue s) + sum_list (map in_hand (workers s))
     + length (output_queue s) + length (out_file s)"

text \<open>
  What the flags imply, and the bounds of the queues: the reader has read everything
  once it has finished; a worker leaves its loop only when the reader has finished and
  the input queue is empty; \<^verbatim>\<open>filter\<close> sets \<^verbatim>\<open>finished_processing\<close> only after
  all of them have left; the writer leaves only after that, on an empty output queue.
\<close>

definition pipeline_inv :: "pipeline \<Rightarrow> bool" where
  "pipeline_inv s =
     ((finished_reading s \<longrightarrow> unread s = [])
      \<and> (Exited \<in> set (workers s) \<longrightarrow> finished_reading s \<and> input_queue s = [])
      \<and> (finished_processing s \<longrightarrow>
            finished_reading s \<and> list_all (\<lambda>w. w = Exited) (workers s))
      \<and> (writer_exited s \<longrightarrow> finished_processing s \<and> output_queue s = [])
      \<and> length (input_queue s) \<le> MAX_QUEUE_SIZE
      \<and> length (output_queue s) \<le> MAX_QUEUE_SIZE)"







text \<open>
  With the lines still to be processed taken in the order they are in (in a worker's
  hands, then the input queue, then the file), everything written, queued for writing
  or about to be queued, followed by what processing the rest in order would give.
\<close>

definition in_order_view :: "pipeline \<Rightarrow> string list" where
  "in_order_view s =
     out_file s @ output_queue s @ concat (map processed_of (workers s))
     @ process_in_order (target_samples s) (sample_indices s)
         (concat (map held_of (workers s)) @ input_queue s @ unread s)"

section \<open>Splitting and joining\<close>

lemma read_tokens_Nil [simp]: "read_tokens delim [] = []"
  by (simp add: read_tokens.simps getline_def)

lemma read_tokens_Cons [simp]:
  "read_tokens delim (c # cs) =
     (if c = delim then [] # read_tokens delim cs
      else (case read_tokens delim cs of [] \<Rightarrow> [[c]] | t # ts \<Rightarrow> (c # t) # ts))"
proof (cases "c = delim")
  case True
  then show ?thesis
    by (subst read_tokens.simps) (simp add: getline_def)
next
  case False
  show ?thesis
  proof (cases cs)
    case Nil
    with False show ?thesis
      by (subst read_tokens.simps) (simp add: getline_def)
  next
    case (Cons a as)
    have "read_tokens delim (c # cs) =
            (c # takeWhile (\<lambda>x. x \<noteq> delim) cs) # read_tokens delim (drop 1 (dropWhile (\<lambda>x. x \<noteq> delim) cs))"
      using False by (subst read_tokens.simps) (simp add: getline_def)
    moreover have "read_tokens delim cs =
            takeWhile (\<lambda>x. x \<noteq> delim) cs # read_tokens delim (drop 1 (dropWhile (\<lambda>x. x \<noteq> delim) cs))"
      using Cons by (subst read_tokens.simps) (simp add: getline_def)
    ultimately show ?thesis
      using False by simp
  qed
qed

lemma read_tokens_no_delim: "t \<in> set (read_tokens delim s) \<Longrightarrow> delim \<notin> set t"
  by (induction s arbitrary: t) (auto split: if_splits list.splits)

lemma read_tokens_single: "delim \<notin> set f \<Longrightarrow> f \<noteq> [] \<Longrightarrow> read_tokens delim f = [f]"
proof (induction f)
  case Nil
  then show ?case by simp
next
  case (Cons c f)
  show ?case
  proof (cases "f = []")
    case True
    with Cons.prems show ?thesis by simp
  next
    case False
    with Cons show ?thesis by auto
  qed
qed

lemma read_tokens_append_delim:
  "delim \<notin> set f \<Longrightarrow> read_tokens delim (f @ delim # rest) = f # read_tokens delim rest"
  by (induction f) auto

lemma read_tokens_join_tab:
  "\<forall>f \<in> set fs. TAB \<notin> set f \<Longrightarrow> (fs \<noteq> [] \<longrightarrow> last fs \<noteq> []) \<Longrightarrow> read_tokens TAB (join_tab fs) = fs"
proof (induction fs rule: join_tab.induct)
  case 1
  show ?case by simp
next
  case (2 f)
  then show ?case by (simp add: read_tokens_single)
next
  case (3 f g fs)
  then show ?case by (simp add: read_tokens_append_delim)
qed

lemma join_tab_snoc: "join_tab (fs @ [f]) = (if fs = [] then f else join_tab fs @ TAB # f)"
  by (induction fs rule: join_tab.induct) auto

lemma write_fields_Suc:
  "write_fields flds (Suc n) = write_fields flds n @ (if 0 < n then [TAB] else []) @ flds ! n"
  by (simp add: write_fields_def)

lemma write_fields_join: "n \<le> length flds \<Longrightarrow> write_fields flds n = join_tab (take n flds)"
proof (induction n)
  case 0
  show ?case by (simp add: write_fields_def)
next
  case (Suc n)
  then have "n < length flds" by simp
  then have "take (Suc n) flds = take n flds @ [flds ! n]"
    by (rule take_Suc_conv_app_nth)
  with Suc show ?case
    by (auto simp: write_fields_Suc join_tab_snoc)
qed

lemma foldl_append_fields:
  "foldl (\<lambda>oss idx. oss @ TAB # g idx) acc idxs = acc @ concat (map (\<lambda>idx. TAB # g idx) idxs)"
  by (induction idxs arbitrary: acc) auto

lemma join_tab_append:
  "fs \<noteq> [] \<Longrightarrow> join_tab (fs @ gs) = join_tab fs @ concat (map (\<lambda>g. TAB # g) gs)"
proof (induction gs rule: rev_induct)
  case Nil
  show ?case by simp
next
  case (snoc g gs)
  have "join_tab (fs @ gs @ [g]) = join_tab ((fs @ gs) @ [g])" by simp
  also have "\<dots> = join_tab (fs @ gs) @ TAB # g"
    using snoc.prems by (subst join_tab_snoc) simp
  finally show ?case using snoc by simp
qed


subsection \<open>The loops of process\_header\<close>

lemma find_format_None:
  "find_format flds i = None \<longleftrightarrow> (\<forall>j. i \<le> j \<and> j < length flds \<longrightarrow> flds ! j \<noteq> ''FORMAT'')"
proof (induction flds i rule: find_format.induct)
  case (1 flds i)
  show ?case
  proof (cases "i < length flds")
    case False
    then show ?thesis by (subst find_format.simps) auto
  next
    case True
    show ?thesis
    proof (cases "flds ! i = ''FORMAT''")
      case True
      with \<open>i < length flds\<close> show ?thesis
        by (subst find_format.simps) auto
    next
      case False
      have "(\<forall>j. i \<le> j \<and> j < length flds \<longrightarrow> flds ! j \<noteq> ''FORMAT'') \<longleftrightarrow>
            (\<forall>j. i + 1 \<le> j \<and> j < length flds \<longrightarrow> flds ! j \<noteq> ''FORMAT'')"
        using False by (metis Suc_eq_plus1 Suc_leI le_eq_less_or_eq Suc_leD)
      with 1 True False show ?thesis
        by (subst find_format.simps) simp
    qed
  qed
qed

lemma find_format_Some:
  "find_format flds i = Some p \<longleftrightarrow>
     (i \<le> p \<and> p < length flds \<and> flds ! p = ''FORMAT'' \<and> (\<forall>j. i \<le> j \<and> j < p \<longrightarrow> flds ! j \<noteq> ''FORMAT''))"
proof (induction flds i rule: find_format.induct)
  case (1 flds i)
  show ?case
  proof (cases "i < length flds")
    case False
    then show ?thesis by (subst find_format.simps) auto
  next
    case True
    show ?thesis
    proof (cases "flds ! i = ''FORMAT''")
      case True
      with \<open>i < length flds\<close> show ?thesis
        by (subst find_format.simps) (auto simp: not_less le_less)
    next
      case False
      have "(i \<le> p \<and> p < length flds \<and> flds ! p = ''FORMAT'' \<and> (\<forall>j. i \<le> j \<and> j < p \<longrightarrow> flds ! j \<noteq> ''FORMAT'')) \<longleftrightarrow>
            (i + 1 \<le> p \<and> p < length flds \<and> flds ! p = ''FORMAT'' \<and> (\<forall>j. i + 1 \<le> j \<and> j < p \<longrightarrow> flds ! j \<noteq> ''FORMAT''))"
        using False by (metis Suc_eq_plus1 Suc_leI le_eq_less_or_eq Suc_leD)
      with 1 True False show ?thesis
        by (subst find_format.simps) simp
    qed
  qed
qed

lemma select_samples_eq:
  "select_samples T flds i (si, ofs) =
     (si @ filter (\<lambda>j. flds ! j \<in> T) [i..<length flds],
      ofs @ map ((!) flds) (filter (\<lambda>j. flds ! j \<in> T) [i..<length flds]))"
proof (induction T flds i "(si, ofs)" arbitrary: si ofs rule: select_samples.induct)
  case (1 T flds i si ofs)
  show ?case
  proof (cases "i < length flds")
    case False
    then show ?thesis by (subst select_samples.simps) simp
  next
    case True
    then have up: "[i..<length flds] = i # [i + 1..<length flds]"
      by (simp add: upt_conv_Cons)
    show ?thesis
    proof (cases "flds ! i \<in> T")
      case True
      with 1(1) \<open>i < length flds\<close> show ?thesis
        by (subst select_samples.simps) (simp add: up)
    next
      case False
      with 1(2) \<open>i < length flds\<close> show ?thesis
        by (subst select_samples.simps) (simp add: up)
    qed
  qed
qed


subsection \<open>process\_data\_line\<close>

lemma process_data_line_short:
  "length (read_tokens TAB line) < 9 \<Longrightarrow> process_data_line idxs line = line"
  by (simp add: process_data_line_def)

lemma process_data_line_long:
  assumes "9 \<le> length (read_tokens TAB line)"
  shows "process_data_line idxs line =
           join_tab (take 9 (read_tokens TAB line) @
             map (\<lambda>idx. if idx < length (read_tokens TAB line)
                         then read_tokens TAB line ! idx else ''.'') idxs)"
proof -
  let ?flds = "read_tokens TAB line"
  have ne: "take 9 ?flds \<noteq> []"
    using assms by auto
  have "write_fields ?flds 9 = join_tab (take 9 ?flds)"
    using assms by (rule write_fields_join)
  then show ?thesis
    using assms ne
    by (simp add: process_data_line_def Let_def foldl_append_fields join_tab_append
        map_map comp_def del: foldl_append)
qed



subsection \<open>process\_header\<close>

lemma drop_as_map_nth: "drop a xs = map ((!) xs) [a..<length xs]"
  by (rule nth_equalityI) auto

lemma selected_fields_eq:
  "map ((!) flds) (filter (\<lambda>j. flds ! j \<in> T) [a..<length flds]) = filter (\<lambda>f. f \<in> T) (drop a flds)"
  by (simp add: drop_as_map_nth [of a flds] filter_map comp_def)

lemma write_fields_all: "write_fields flds (length flds) = join_tab flds"
  using write_fields_join [of "length flds" flds] by simp

lemma process_header_eq:
  "process_header T idxs header_line =
     (case find_format (read_tokens TAB header_line) 0 of
        None \<Rightarrow> Inl FormatColumnNotFound
      | Some p \<Rightarrow>
          (let matched = filter (\<lambda>j. read_tokens TAB header_line ! j \<in> T)
                           [p + 1..<length (read_tokens TAB header_line)]
           in if idxs @ matched = [] then Inl NoMatchingSamples
              else Inr (idxs @ matched,
                        join_tab (take (p + 1) (read_tokens TAB header_line)
                                  @ map ((!) (read_tokens TAB header_line)) matched))))"
  unfolding process_header_def Let_def select_samples_eq prod.case write_fields_all
  by (simp split: option.splits)

text \<open>
  C4. For a header whose first field equal to \<open>FORMAT\<close> is at position \<open>p\<close> and
  a target set that holds at least one field after it, \<open>process_header\<close>, called with
  no index recorded yet, returns the fields up to and including position \<open>p\<close>
  followed by the later fields that are in the target set, in header order, joined by
  tabs; the indices it records are the positions of those fields, in the same order; the
  rewritten header has \<open>p + 1\<close> plus the number of matches fields.
\<close>

theorem process_header_resolves:
  assumes "flds = read_tokens TAB header_line"
    and "p < length flds" and "flds ! p = ''FORMAT''" and "\<forall>j<p. flds ! j \<noteq> ''FORMAT''"
    and "matched = filter (\<lambda>j. flds ! j \<in> T) [p + 1..<length flds]"
    and "matched \<noteq> []"
  shows "process_header T [] header_line =
           Inr (matched, join_tab (take (p + 1) flds @ filter (\<lambda>f. f \<in> T) (drop (p + 1) flds)))
         \<and> map ((!) flds) matched = filter (\<lambda>f. f \<in> T) (drop (p + 1) flds)
         \<and> length (take (p + 1) flds @ filter (\<lambda>f. f \<in> T) (drop (p + 1) flds))
             = (p + 1) + length matched"
proof -
  have ff: "find_format flds 0 = Some p"
    using assms(2-4) by (simp add: find_format_Some)
  have sel: "map ((!) flds) matched = filter (\<lambda>f. f \<in> T) (drop (p + 1) flds)"
    unfolding assms(5) by (rule selected_fields_eq)
  have "length (filter (\<lambda>f. f \<in> T) (drop (p + 1) flds)) = length matched"
    using sel [symmetric] by simp
  moreover have "length (take (p + 1) flds) = p + 1"
    using assms(2) by simp
  moreover have "process_header T [] header_line =
      Inr (matched, join_tab (take (p + 1) flds @ map ((!) flds) matched))"
    using ff assms(6) unfolding assms(1,5) by (simp add: process_header_eq Let_def)
  ultimately show ?thesis
    using sel by simp
qed


theorem process_header_resolves_witness:
  "process_header {''C'', ''A''} []
     (join_tab [''#CHROM'', ''POS'', ''ID'', ''REF'', ''ALT'', ''QUAL'', ''FILTER'', ''INFO'',
                ''FORMAT'', ''A'', ''B'', ''C''])
   = Inr ([9, 11],
          join_tab [''#CHROM'', ''POS'', ''ID'', ''REF'', ''ALT'', ''QUAL'', ''FILTER'', ''INFO'',
                    ''FORMAT'', ''A'', ''C''])"
proof -
  let ?h = "join_tab [''#CHROM'', ''POS'', ''ID'', ''REF'', ''ALT'', ''QUAL'', ''FILTER'', ''INFO'',
                ''FORMAT'', ''A'', ''B'', ''C'']"
  have flds: "read_tokens TAB ?h =
      [''#CHROM'', ''POS'', ''ID'', ''REF'', ''ALT'', ''QUAL'', ''FILTER'', ''INFO'',
       ''FORMAT'', ''A'', ''B'', ''C'']"
    by simp
  have first: "\<forall>j<8. read_tokens TAB ?h ! j \<noteq> ''FORMAT''"
    unfolding flds by (simp add: numeral_eq_Suc less_Suc_eq)
  have m: "filter (\<lambda>j. read_tokens TAB ?h ! j \<in> {''C'', ''A''}) [8 + 1..<length (read_tokens TAB ?h)] = [9, 11]"
    unfolding flds by (simp add: upt_rec)
  show ?thesis
    using process_header_resolves [where header_line = ?h and p = 8 and T = "{''C'', ''A''}",
        OF refl _ _ first refl]
    unfolding m unfolding flds by simp
qed


subsection \<open>load\_samples\<close>

lemma insert_samples_eq:
  "insert_samples lines S = S \<union> (filter (\<lambda>c. \<not> isspace c) ` set lines - {[]})"
  by (induction lines arbitrary: S) (auto simp: Let_def)

lemma load_samples_Some:
  "load_samples (Some content) =
     (if filter (\<lambda>c. \<not> isspace c) ` set (read_tokens NEWLINE content) - {[]} = {}
      then Inl NoSamplesFound
      else Inr (filter (\<lambda>c. \<not> isspace c) ` set (read_tokens NEWLINE content) - {[]}))"
  by (simp add: load_samples_def insert_samples_eq Let_def)

lemma filter_dropWhile_not: "filter P (dropWhile (\<lambda>c. \<not> P c) s) = filter P s"
  by (induction s) auto

lemma filter_strip_ends: "filter (\<lambda>c. \<not> isspace c) (strip_ends s) = filter (\<lambda>c. \<not> isspace c) s"
proof -
  have "filter (\<lambda>c. \<not> isspace c) (strip_ends s)
          = rev (filter (\<lambda>c. \<not> isspace c) (dropWhile (\<lambda>c. \<not> \<not> isspace c) (rev (dropWhile isspace s))))"
    by (simp add: strip_ends_def rev_filter)
  also have "\<dots> = rev (filter (\<lambda>c. \<not> isspace c) (rev (dropWhile (\<lambda>c. \<not> \<not> isspace c) s)))"
    unfolding filter_dropWhile_not by simp
  also have "\<dots> = filter (\<lambda>c. \<not> isspace c) (dropWhile (\<lambda>c. \<not> \<not> isspace c) s)"
    by (simp add: rev_filter)
  also have "\<dots> = filter (\<lambda>c. \<not> isspace c) s"
    by (rule filter_dropWhile_not)
  finally show ?thesis .
qed

text \<open>
  C6, as the code has it. The loader takes the file line by line, deletes every
  whitespace character of a line (at the ends and inside), drops the lines that become
  empty and collects the rest; it fails when nothing is left. For a line whose
  whitespace is all at its ends this is the line stripped at both ends.
\<close>

theorem load_samples_removes_all_whitespace:
  "load_samples (Some content) =
     (if filter (\<lambda>c. \<not> isspace c) ` set (read_tokens NEWLINE content) - {[]} = {}
      then Inl NoSamplesFound
      else Inr (filter (\<lambda>c. \<not> isspace c) ` set (read_tokens NEWLINE content) - {[]}))
   \<and> ((\<forall>c \<in> set (strip_ends line). \<not> isspace c)
        \<longrightarrow> filter (\<lambda>c. \<not> isspace c) line = strip_ends line)"
proof (intro conjI impI)
  show "load_samples (Some content) =
     (if filter (\<lambda>c. \<not> isspace c) ` set (read_tokens NEWLINE content) - {[]} = {}
      then Inl NoSamplesFound
      else Inr (filter (\<lambda>c. \<not> isspace c) ` set (read_tokens NEWLINE content) - {[]}))"
    by (rule load_samples_Some)
next
  assume "\<forall>c \<in> set (strip_ends line). \<not> isspace c"
  then have "filter (\<lambda>c. \<not> isspace c) (strip_ends line) = strip_ends line"
    by (simp add: filter_id_conv)
  then show "filter (\<lambda>c. \<not> isspace c) line = strip_ends line"
    by (simp add: filter_strip_ends)
qed

theorem load_samples_removes_all_whitespace_witness:
  "load_samples (Some ('' NA12878 '' @ [CHR 0x0D, NEWLINE, NEWLINE] @ ''HG 002'' @ [NEWLINE]))
     = Inr {''NA12878'', ''HG002''}
   \<and> strip_ends ('' NA12878 '' @ [CHR 0x0D]) = ''NA12878''
   \<and> filter (\<lambda>c. \<not> isspace c) ('' NA12878 '' @ [CHR 0x0D]) = ''NA12878''"
  using load_samples_removes_all_whitespace
    [of "'' NA12878 '' @ [CHR 0x0D, NEWLINE, NEWLINE] @ ''HG 002'' @ [NEWLINE]" "'' NA12878 '' @ [CHR 0x0D]"]
  by (auto simp: strip_ends_def isspace_def)

text \<open>
  C6 as stated fails: whitespace inside a name is deleted too, so the line
  \<open>NA 12878\<close> gives the name \<open>NA12878\<close>, not the line stripped at its ends.
\<close>

theorem load_samples_interior_whitespace_counterexample:
  "load_samples (Some ''NA 12878'') = Inr {''NA12878''}
   \<and> strip_ends ''NA 12878'' = ''NA 12878''
   \<and> load_samples (Some ''NA 12878'') \<noteq> Inr {strip_ends ''NA 12878''}"
  by (simp add: load_samples_Some strip_ends_def isspace_def)


subsection \<open>Failures\<close>

lemma load_samples_no_names:
  assumes "\<forall>line \<in> set (read_tokens NEWLINE content). \<forall>c \<in> set line. isspace c"
  shows "load_samples (Some content) = Inl NoSamplesFound"
proof -
  have "filter (\<lambda>c. \<not> isspace c) ` set (read_tokens NEWLINE content) - {[]} = {}"
    using assms by (auto simp: filter_empty_conv)
  then show ?thesis
    by (simp add: load_samples_Some)
qed

lemma load_samples_error:
  assumes "load_samples sample_file = Inl err"
  shows "(sample_file = None \<and> err = CannotOpenSampleFile) \<or>
         (\<exists>content. sample_file = Some content \<and> err = NoSamplesFound
            \<and> (\<forall>line \<in> set (read_tokens NEWLINE content). \<forall>c \<in> set line. isspace c))"
proof (cases sample_file)
  case None
  with assms show ?thesis by (simp add: load_samples_def)
next
  case (Some content)
  with assms have e: "filter (\<lambda>c. \<not> isspace c) ` set (read_tokens NEWLINE content) - {[]} = {}"
    and err: "err = NoSamplesFound"
    by (auto simp: load_samples_Some split: if_splits)
  have "\<forall>line \<in> set (read_tokens NEWLINE content). \<forall>c \<in> set line. isspace c"
  proof (intro ballI)
    fix line c assume l: "line \<in> set (read_tokens NEWLINE content)" and c: "c \<in> set line"
    from e l have "filter (\<lambda>c. \<not> isspace c) line = []" by auto
    with c show "isspace c" by (auto simp: filter_empty_conv)
  qed
  with Some err show ?thesis by simp
qed

lemma process_header_no_format:
  "''FORMAT'' \<notin> set (read_tokens TAB header_line)
     \<Longrightarrow> process_header T idxs header_line = Inl FormatColumnNotFound"
proof -
  assume "''FORMAT'' \<notin> set (read_tokens TAB header_line)"
  then have "find_format (read_tokens TAB header_line) 0 = None"
    unfolding find_format_None by (metis nth_mem)
  then show ?thesis
    by (simp add: process_header_eq)
qed

lemma process_header_no_match:
  assumes "flds = read_tokens TAB header_line"
    and "p < length flds" and "flds ! p = ''FORMAT''" and "\<forall>j<p. flds ! j \<noteq> ''FORMAT''"
    and "\<forall>j. p < j \<and> j < length flds \<longrightarrow> flds ! j \<notin> T"
  shows "process_header T [] header_line = Inl NoMatchingSamples"
proof -
  have ff: "find_format flds 0 = Some p"
    using assms(2-4) by (simp add: find_format_Some)
  have "filter (\<lambda>j. flds ! j \<in> T) [p + 1..<length flds] = []"
    using assms(5) by (auto simp: filter_empty_conv)
  with ff show ?thesis
    unfolding assms(1) by (simp add: process_header_eq)
qed

lemma process_header_error:
  assumes "process_header T [] header_line = Inl err" and "flds = read_tokens TAB header_line"
  shows "(''FORMAT'' \<notin> set flds \<and> err = FormatColumnNotFound) \<or>
         (\<exists>p. p < length flds \<and> flds ! p = ''FORMAT'' \<and> (\<forall>j<p. flds ! j \<noteq> ''FORMAT'')
             \<and> (\<forall>j. p < j \<and> j < length flds \<longrightarrow> flds ! j \<notin> T)
             \<and> err = NoMatchingSamples)"
proof (cases "find_format flds 0")
  case None
  then have "''FORMAT'' \<notin> set flds"
    by (auto simp: find_format_None in_set_conv_nth)
  moreover from None assms have "err = FormatColumnNotFound"
    by (simp add: process_header_eq)
  ultimately show ?thesis by simp
next
  case (Some p)
  then have p: "p < length flds" "flds ! p = ''FORMAT''" "\<forall>j<p. flds ! j \<noteq> ''FORMAT''"
    by (auto simp: find_format_Some)
  from Some assms have "filter (\<lambda>j. flds ! j \<in> T) [p + 1..<length flds] = []"
    and err: "err = NoMatchingSamples"
    by (auto simp: process_header_eq Let_def split: if_splits)
  then have "\<forall>j. p < j \<and> j < length flds \<longrightarrow> flds ! j \<notin> T"
    by (auto simp: filter_empty_conv)
  with p err show ?thesis by blast
qed

lemma step_aborts:
  assumes "i < length (workers s)" and "workers s ! i = Holding line" and "aborted s = None"
    and "process_line (target_samples s) (sample_indices s) line = Inl err"
  shows "step (WorkerProcess i) s = Some (s\<lparr>aborted := Some err\<rparr>)"
  using assms by (simp add: step_def)

lemma step_after_abort: "aborted s \<noteq> None \<Longrightarrow> step e s = None"
  by (auto simp: step_def)

text \<open>
  C5. A sample file that cannot be opened, or in which every line is whitespace only,
  makes \<open>load_samples\<close> fail with an error of kind \<open>ConfigError\<close>, and
  \<open>filter_vcf\<close> returns that error without starting the pipeline; these are the only
  failures of \<open>load_samples\<close>. A header without a field \<open>FORMAT\<close> fails with the
  error of kind \<open>FormatError\<close>; a header with \<open>FORMAT\<close> and no target name
  after it, processed when no index is recorded yet, fails with the error of kind
  \<open>NoMatchError\<close>; these are the only failures of \<open>process_header\<close>. An
  error in a worker aborts the pipeline: no action is enabled afterwards.
\<close>

theorem boundary_failures:
  "load_samples None = Inl CannotOpenSampleFile
   \<and> ((\<forall>l \<in> set (read_tokens NEWLINE content). \<forall>c \<in> set l. isspace c)
        \<longrightarrow> load_samples (Some content) = Inl NoSamplesFound)
   \<and> (load_samples sample_file = Inl err
        \<longrightarrow> kind_of err = ConfigError \<and> filter_vcf sample_file num_threads input = Inl err
            \<and> ((sample_file = None \<and> err = CannotOpenSampleFile) \<or>
                (\<exists>content. sample_file = Some content \<and> err = NoSamplesFound
                   \<and> (\<forall>l \<in> set (read_tokens NEWLINE content). \<forall>c \<in> set l. isspace c))))
   \<and> (''FORMAT'' \<notin> set (read_tokens TAB header_line)
        \<longrightarrow> process_header T idxs header_line = Inl FormatColumnNotFound)
   \<and> (p < length (read_tokens TAB header_line) \<and> read_tokens TAB header_line ! p = ''FORMAT''
        \<and> (\<forall>j<p. read_tokens TAB header_line ! j \<noteq> ''FORMAT'')
        \<and> (\<forall>j. p < j \<and> j < length (read_tokens TAB header_line)
                  \<longrightarrow> read_tokens TAB header_line ! j \<notin> T)
        \<longrightarrow> process_header T [] header_line = Inl NoMatchingSamples)
   \<and> (process_header T [] header_line = Inl err
        \<longrightarrow> (''FORMAT'' \<notin> set (read_tokens TAB header_line) \<and> err = FormatColumnNotFound
               \<and> kind_of err = FormatError) \<or>
            (''FORMAT'' \<in> set (read_tokens TAB header_line) \<and> err = NoMatchingSamples
               \<and> kind_of err = NoMatchError))
   \<and> (i < length (workers s) \<and> workers s ! i = Holding line \<and> aborted s = None
        \<and> process_line (target_samples s) (sample_indices s) line = Inl err
        \<longrightarrow> step (WorkerProcess i) s = Some (s\<lparr>aborted := Some err\<rparr>))
   \<and> (aborted s \<noteq> None \<longrightarrow> step e s = None)"
proof (intro conjI impI)
  show "load_samples None = Inl CannotOpenSampleFile"
    by (simp add: load_samples_def)
next
  assume "\<forall>l \<in> set (read_tokens NEWLINE content). \<forall>c \<in> set l. isspace c"
  then show "load_samples (Some content) = Inl NoSamplesFound"
    by (rule load_samples_no_names)
next
  assume e: "load_samples sample_file = Inl err"
  from load_samples_error [OF e] show "kind_of err = ConfigError"
    by auto
  from e show "filter_vcf sample_file num_threads input = Inl err"
    by (simp add: filter_vcf_def)
  from load_samples_error [OF e]
  show "(sample_file = None \<and> err = CannotOpenSampleFile) \<or>
        (\<exists>content. sample_file = Some content \<and> err = NoSamplesFound
           \<and> (\<forall>l \<in> set (read_tokens NEWLINE content). \<forall>c \<in> set l. isspace c))" .
next
  assume "''FORMAT'' \<notin> set (read_tokens TAB header_line)"
  then show "process_header T idxs header_line = Inl FormatColumnNotFound"
    by (rule process_header_no_format)
next
  assume "p < length (read_tokens TAB header_line) \<and> read_tokens TAB header_line ! p = ''FORMAT''
        \<and> (\<forall>j<p. read_tokens TAB header_line ! j \<noteq> ''FORMAT'')
        \<and> (\<forall>j. p < j \<and> j < length (read_tokens TAB header_line)
                  \<longrightarrow> read_tokens TAB header_line ! j \<notin> T)"
  then show "process_header T [] header_line = Inl NoMatchingSamples"
    using process_header_no_match [OF refl, of p header_line T] by blast
next
  assume e: "process_header T [] header_line = Inl err"
  from process_header_error [OF e refl]
  show "(''FORMAT'' \<notin> set (read_tokens TAB header_line) \<and> err = FormatColumnNotFound
               \<and> kind_of err = FormatError) \<or>
            (''FORMAT'' \<in> set (read_tokens TAB header_line) \<and> err = NoMatchingSamples
               \<and> kind_of err = NoMatchError)"
    by (auto simp: in_set_conv_nth)
next
  assume "i < length (workers s) \<and> workers s ! i = Holding line \<and> aborted s = None
        \<and> process_line (target_samples s) (sample_indices s) line = Inl err"
  then show "step (WorkerProcess i) s = Some (s\<lparr>aborted := Some err\<rparr>)"
    by (simp add: step_aborts)
next
  assume "aborted s \<noteq> None"
  then show "step e s = None"
    by (rule step_after_abort)
qed

theorem boundary_failures_witness:
  "load_samples (Some ('' '' @ [NEWLINE, TAB, NEWLINE])) = Inl NoSamplesFound
   \<and> filter_vcf None 4 [''#CHROM''] = Inl CannotOpenSampleFile
   \<and> process_header {''A''} [] (join_tab [''#CHROM'', ''POS'']) = Inl FormatColumnNotFound
   \<and> process_header {''A''} [] (join_tab [''#CHROM'', ''FORMAT'', ''B'']) = Inl NoMatchingSamples
   \<and> step (WorkerProcess 0) ((start {''A''} 1 [])\<lparr>workers := [Holding ''#CHROM'']\<rparr>)
       = Some ((start {''A''} 1 [])\<lparr>workers := [Holding ''#CHROM''],
                                     aborted := Some FormatColumnNotFound\<rparr>)
   \<and> step WriterPop ((start {''A''} 1 [])\<lparr>aborted := Some FormatColumnNotFound\<rparr>) = None"
proof -
  let ?h = "join_tab [''#CHROM'', ''FORMAT'', ''B'']"
  let ?s = "(start {''A''} 1 [])\<lparr>workers := [Holding ''#CHROM'']\<rparr>"
  have ws: "\<forall>l \<in> set (read_tokens NEWLINE ('' '' @ [NEWLINE, TAB, NEWLINE])). \<forall>c \<in> set l. isspace c"
    by (simp add: isspace_def)
  have nf: "''FORMAT'' \<notin> set (read_tokens TAB (join_tab [''#CHROM'', ''POS'']))"
    by simp
  have flds: "read_tokens TAB ?h = [''#CHROM'', ''FORMAT'', ''B'']"
    by simp
  have nm: "1 < length (read_tokens TAB ?h) \<and> read_tokens TAB ?h ! 1 = ''FORMAT''
        \<and> (\<forall>j<1. read_tokens TAB ?h ! j \<noteq> ''FORMAT'')
        \<and> (\<forall>j. 1 < j \<and> j < length (read_tokens TAB ?h) \<longrightarrow> read_tokens TAB ?h ! j \<notin> {''A''})"
    unfolding flds by (auto simp: less_Suc_eq numeral_eq_Suc)
  have pl: "process_line (target_samples ?s) (sample_indices ?s) ''#CHROM'' = Inl FormatColumnNotFound"
    by (simp add: process_line_def start_def process_header_no_format)
  have ab: "0 < length (workers ?s) \<and> workers ?s ! 0 = Holding ''#CHROM'' \<and> aborted ?s = None"
    by (simp add: start_def)
  note a5 = boundary_failures [where err = FormatColumnNotFound and i = 0 and s = ?s
      and line = "''#CHROM''"]
  note a = boundary_failures [where content = "'' '' @ [NEWLINE, TAB, NEWLINE]"
      and sample_file = None and err = CannotOpenSampleFile and num_threads = 4
      and input = "[''#CHROM'']" and header_line = "join_tab [''#CHROM'', ''POS'']"
      and T = "{''A''}" and idxs = "[]" and i = 0 and s = ?s and line = "''#CHROM''"]
  note b = boundary_failures [where sample_file = None and err = FormatColumnNotFound
      and header_line = ?h and p = 1 and T = "{''A''}"
      and s = "(start {''A''} 1 [])\<lparr>aborted := Some FormatColumnNotFound\<rparr>" and e = WriterPop]
  have 0: "load_samples None = Inl CannotOpenSampleFile"
    by (rule a [THEN conjunct1])
  have 1: "filter_vcf None 4 [''#CHROM''] = Inl CannotOpenSampleFile"
    using a [THEN conjunct2, THEN conjunct2, THEN conjunct1, THEN mp, OF 0] by simp
  have 2: "load_samples (Some ('' '' @ [NEWLINE, TAB, NEWLINE])) = Inl NoSamplesFound"
    by (rule a [THEN conjunct2, THEN conjunct1, THEN mp, OF ws])
  have 3: "process_header {''A''} [] (join_tab [''#CHROM'', ''POS'']) = Inl FormatColumnNotFound"
    by (rule a [THEN conjunct2, THEN conjunct2, THEN conjunct2, THEN conjunct1, THEN mp, OF nf])
  have 4: "process_header {''A''} [] ?h = Inl NoMatchingSamples"
    by (rule b [THEN conjunct2, THEN conjunct2, THEN conjunct2, THEN conjunct2, THEN conjunct1,
          THEN mp, OF nm])
  have 5: "step (WorkerProcess 0) ?s = Some (?s\<lparr>aborted := Some FormatColumnNotFound\<rparr>)"
    using a5 [THEN conjunct2, THEN conjunct2, THEN conjunct2, THEN conjunct2, THEN conjunct2,
          THEN conjunct2, THEN conjunct1, THEN mp] ab pl by simp
  have 6: "step WriterPop ((start {''A''} 1 [])\<lparr>aborted := Some FormatColumnNotFound\<rparr>) = None"
    using b [THEN conjunct2, THEN conjunct2, THEN conjunct2, THEN conjunct2, THEN conjunct2,
          THEN conjunct2, THEN conjunct2] by simp
  from 1 2 3 4 5 6 show ?thesis
    by simp
qed

subsection \<open>The worker's routing of a line\<close>

lemma run_process_push:
  assumes "i < length (workers s)" and "workers s ! i = Holding line" and "aborted s = None"
    and "length (output_queue s) < MAX_QUEUE_SIZE"
    and "process_line (target_samples s) (sample_indices s) line = Inr (idxs, out)"
  shows "run [WorkerProcess i, WorkerPush i] s =
           Some (s\<lparr>sample_indices := idxs, output_queue := output_queue s @ [out],
                   workers := (workers s)[i := Waiting],
                   lines_processed := lines_processed s + 1\<rparr>)"
  using assms by (simp add: step_def)

lemma process_line_prefixed:
  assumes "take 6 line = ''#CHROM''"
  shows "process_line T idxs line = process_header T idxs line"
  using assms by (cases line) (auto simp: process_line_def)

text \<open>
  C9, as the code has it. A line that begins with \<open>#\<close> and does not start with the
  six characters \<open>#CHROM\<close> is the worker's output as it is, whatever the target
  samples and the recorded indices, which it leaves alone; a worker holding such a line
  appends exactly this text to the output queue.
\<close>

theorem comment_line_passes_through:
  assumes "line \<noteq> []" and "hd line = CHR ''#''" and "take 6 line \<noteq> ''#CHROM''"
  shows "process_line T idxs line = Inr (idxs, line)
       \<and> (i < length (workers s) \<and> workers s ! i = Holding line \<and> aborted s = None
            \<and> length (output_queue s) < MAX_QUEUE_SIZE
          \<longrightarrow> run [WorkerProcess i, WorkerPush i] s =
                Some (s\<lparr>output_queue := output_queue s @ [line],
                        workers := (workers s)[i := Waiting],
                        lines_processed := lines_processed s + 1\<rparr>))"
proof (intro conjI impI)
  show pl: "process_line T idxs line = Inr (idxs, line)" for T idxs
    using assms by (simp add: process_line_def)
  assume "i < length (workers s) \<and> workers s ! i = Holding line \<and> aborted s = None
            \<and> length (output_queue s) < MAX_QUEUE_SIZE"
  then show "run [WorkerProcess i, WorkerPush i] s =
                Some (s\<lparr>output_queue := output_queue s @ [line],
                        workers := (workers s)[i := Waiting],
                        lines_processed := lines_processed s + 1\<rparr>)"
    using run_process_push [of i s line "sample_indices s" line] pl by simp
qed

theorem comment_line_passes_through_witness:
  "process_line {''A''} [9] ''##fileformat=VCFv4.2'' = Inr ([9], ''##fileformat=VCFv4.2'')
   \<and> run [WorkerProcess 0, WorkerPush 0]
        ((start {''A''} 1 [])\<lparr>workers := [Holding ''##fileformat=VCFv4.2'']\<rparr>)
     = Some ((start {''A''} 1 [])\<lparr>output_queue := [''##fileformat=VCFv4.2''],
                                   workers := [Waiting], lines_processed := 1\<rparr>)"
  using comment_line_passes_through [where line = "''##fileformat=VCFv4.2''" and T = "{''A''}"
      and idxs = "[9]" and i = 0
      and s = "(start {''A''} 1 [])\<lparr>workers := [Holding ''##fileformat=VCFv4.2'']\<rparr>"]
  by (simp add: start_def MAX_QUEUE_SIZE_def)

text \<open>
  C9 as stated fails on a comment line that is not the header but starts with
  \<open>#CHROM\<close>: the worker hands it to \<open>process_header\<close>. Without a field
  \<open>FORMAT\<close> the line is not passed through, the exception ends the process; with one,
  the line is cut after it.
\<close>

theorem comment_line_with_header_prefix_counterexample:
  "process_line {''A''} [9] ''#CHROM_ALIASES=chr1:1'' = Inl FormatColumnNotFound
   \<and> step (WorkerProcess 0)
        ((start {''A''} 1 [])\<lparr>sample_indices := [9],
                               workers := [Holding ''#CHROM_ALIASES=chr1:1'']\<rparr>)
     = Some ((start {''A''} 1 [])\<lparr>sample_indices := [9],
                                   workers := [Holding ''#CHROM_ALIASES=chr1:1''],
                                   aborted := Some FormatColumnNotFound\<rparr>)
   \<and> process_line {''A''} [9] (join_tab [''#CHROM_NOTE'', ''FORMAT'', ''unused''])
     = Inr ([9], join_tab [''#CHROM_NOTE'', ''FORMAT''])
   \<and> join_tab [''#CHROM_NOTE'', ''FORMAT''] \<noteq> join_tab [''#CHROM_NOTE'', ''FORMAT'', ''unused'']"
  by (simp add: step_def start_def process_line_def process_header_eq find_format.simps upt_rec)

text \<open>
  C10, as the code has it. Every line whose first six characters are \<open>#CHROM\<close> goes
  through \<open>process_header\<close>, whatever follows these characters and whatever indices
  earlier lines have recorded (so also a second such line). When the line has no field
  \<open>FORMAT\<close> the outcome is the exception "FORMAT column not found". When it has one,
  the first at position \<open>p\<close>, the outcome is the exception "No matching samples" if no
  index was recorded before and no later field is in the target set; otherwise the line
  is rewritten to its fields up to position \<open>p\<close> followed by the later fields that are
  in the target set, and the positions of these are appended to the recorded indices.
  The empty line is passed through unchanged.
\<close>

theorem header_prefix_line_resolution:
  assumes "take 6 line = ''#CHROM''" and "flds = read_tokens TAB line"
  shows "(''FORMAT'' \<notin> set flds \<longrightarrow> process_line T idxs line = Inl FormatColumnNotFound)
       \<and> (p < length flds \<and> flds ! p = ''FORMAT'' \<and> (\<forall>j<p. flds ! j \<noteq> ''FORMAT'') \<longrightarrow>
            process_line T idxs line =
              (if idxs = [] \<and> filter (\<lambda>f. f \<in> T) (drop (p + 1) flds) = []
               then Inl NoMatchingSamples
               else Inr (idxs @ filter (\<lambda>j. flds ! j \<in> T) [p + 1..<length flds],
                         join_tab (take (p + 1) flds @ filter (\<lambda>f. f \<in> T) (drop (p + 1) flds)))))
       \<and> process_line T idxs [] = Inr (idxs, [])"
proof (intro conjI impI)
  note routed = process_line_prefixed [OF assms(1)]
  show "process_line T idxs line = Inl FormatColumnNotFound" if "''FORMAT'' \<notin> set flds"
    using that unfolding routed assms(2) by (rule process_header_no_format)
  show "process_line T idxs [] = Inr (idxs, [])"
    by (simp add: process_line_def)
  assume "p < length flds \<and> flds ! p = ''FORMAT'' \<and> (\<forall>j<p. flds ! j \<noteq> ''FORMAT'')"
  then have ff: "find_format flds 0 = Some p"
    by (simp add: find_format_Some)
  have sel: "map ((!) flds) (filter (\<lambda>j. flds ! j \<in> T) [p + 1..<length flds])
               = filter (\<lambda>f. f \<in> T) (drop (p + 1) flds)"
    by (rule selected_fields_eq)
  then have "filter (\<lambda>j. flds ! j \<in> T) [p + 1..<length flds] = []
               \<longleftrightarrow> filter (\<lambda>f. f \<in> T) (drop (p + 1) flds) = []"
    by (metis map_is_Nil_conv)
  with ff sel show "process_line T idxs line =
              (if idxs = [] \<and> filter (\<lambda>f. f \<in> T) (drop (p + 1) flds) = []
               then Inl NoMatchingSamples
               else Inr (idxs @ filter (\<lambda>j. flds ! j \<in> T) [p + 1..<length flds],
                         join_tab (take (p + 1) flds @ filter (\<lambda>f. f \<in> T) (drop (p + 1) flds))))"
    unfolding routed process_header_eq assms(2) [symmetric] by (simp add: Let_def)
qed

theorem header_prefix_line_resolution_witness:
  "process_line {''A''} [] (join_tab [''#CHROMOSOMES'', ''FORMAT'', ''B'', ''A''])
     = Inr ([3], join_tab [''#CHROMOSOMES'', ''FORMAT'', ''A''])
   \<and> process_line {''A''} [3] (join_tab [''#CHROM'', ''FORMAT'', ''A'', ''B''])
     = Inr ([3, 2], join_tab [''#CHROM'', ''FORMAT'', ''A''])
   \<and> process_line {''A''} [3] (join_tab [''#CHROM'', ''POS'', ''FORMAT'', ''B''])
     = Inr ([3], join_tab [''#CHROM'', ''POS'', ''FORMAT''])
   \<and> process_line {''A''} [] (join_tab [''#CHROM'', ''POS'', ''FORMAT'', ''B''])
     = Inl NoMatchingSamples
   \<and> process_line {''A''} [3] (join_tab [''#CHROM'', ''POS'']) = Inl FormatColumnNotFound"
proof -
  let ?l1 = "join_tab [''#CHROMOSOMES'', ''FORMAT'', ''B'', ''A'']"
  let ?l2 = "join_tab [''#CHROM'', ''FORMAT'', ''A'', ''B'']"
  let ?l3 = "join_tab [''#CHROM'', ''POS'', ''FORMAT'', ''B'']"
  let ?l4 = "join_tab [''#CHROM'', ''POS'']"
  have f1: "read_tokens TAB ?l1 = [''#CHROMOSOMES'', ''FORMAT'', ''B'', ''A'']"
    and f2: "read_tokens TAB ?l2 = [''#CHROM'', ''FORMAT'', ''A'', ''B'']"
    and f3: "read_tokens TAB ?l3 = [''#CHROM'', ''POS'', ''FORMAT'', ''B'']"
    and f4: "read_tokens TAB ?l4 = [''#CHROM'', ''POS'']"
    by simp_all
  have p1: "take 6 ?l1 = ''#CHROM''" and p2: "take 6 ?l2 = ''#CHROM''"
    and p3: "take 6 ?l3 = ''#CHROM''" and p4: "take 6 ?l4 = ''#CHROM''"
    by simp_all
  have 1: "process_line {''A''} [] ?l1 = Inr ([3], join_tab [''#CHROMOSOMES'', ''FORMAT'', ''A''])"
    using header_prefix_line_resolution [OF p1 refl, where p = 1 and T = "{''A''}" and idxs = "[]",
        THEN conjunct2, THEN conjunct1]
    unfolding f1 by (simp add: upt_rec)
  have 2: "process_line {''A''} [3] ?l2 = Inr ([3, 2], join_tab [''#CHROM'', ''FORMAT'', ''A''])"
    using header_prefix_line_resolution [OF p2 refl, where p = 1 and T = "{''A''}" and idxs = "[3]",
        THEN conjunct2, THEN conjunct1]
    unfolding f2 by (simp add: upt_rec)
  have 3: "process_line {''A''} [3] ?l3 = Inr ([3], join_tab [''#CHROM'', ''POS'', ''FORMAT''])"
    using header_prefix_line_resolution [OF p3 refl, where p = 2 and T = "{''A''}" and idxs = "[3]",
        THEN conjunct2, THEN conjunct1]
    unfolding f3 by (simp add: upt_rec less_Suc_eq numeral_eq_Suc)
  have 4: "process_line {''A''} [] ?l3 = Inl NoMatchingSamples"
    using header_prefix_line_resolution [OF p3 refl, where p = 2 and T = "{''A''}" and idxs = "[]",
        THEN conjunct2, THEN conjunct1]
    unfolding f3 by (simp add: upt_rec less_Suc_eq numeral_eq_Suc)
  have 5: "process_line {''A''} [3] ?l4 = Inl FormatColumnNotFound"
    using header_prefix_line_resolution [OF p4 refl, where T = "{''A''}" and idxs = "[3]",
        THEN conjunct1]
    unfolding f4 by simp
  from 1 2 3 4 5 show ?thesis
    by simp
qed

text \<open>
  C10 as stated fails where it says that every such line is rewritten: the comment line
  \<open>#CHROMOSOME_NAMING=ucsc\<close> goes through \<open>process_header\<close>, which finds no field
  \<open>FORMAT\<close>; the line is not rewritten, and the run that meets it is aborted with
  nothing written.
\<close>

theorem header_prefix_line_not_rewritten_counterexample:
  "process_line {''S2''} [] ''#CHROMOSOME_NAMING=ucsc'' = Inl FormatColumnNotFound
   \<and> map_option (\<lambda>s. (aborted s, output_queue s, out_file s))
       (run [ReaderPush, ReaderPush, WorkerPop 0, WorkerProcess 0]
          (start {''S2''} 1
             [''#CHROMOSOME_NAMING=ucsc'',
              join_tab [''#CHROM'', ''POS'', ''ID'', ''REF'', ''ALT'', ''QUAL'', ''FILTER'',
                        ''INFO'', ''FORMAT'', ''S1'', ''S2'']]))
     = Some (Some FormatColumnNotFound, [], [])"
  by (simp add: step_def start_def MAX_QUEUE_SIZE_def process_line_def process_header_eq
        find_format.simps)

subsection \<open>Filtering a filtered file\<close>

lemma join_tab_last_empty:
  assumes "2 \<le> length fs" and "last fs = []"
  shows "ends_with_tab (join_tab fs)"
proof -
  from assms(1) have ne: "fs \<noteq> []" and bne: "butlast fs \<noteq> []"
    by (cases fs; cases "tl fs"; auto)+
  from ne assms(2) have "fs = butlast fs @ [[]]"
    by (metis append_butlast_last_id)
  then have "join_tab fs = join_tab (butlast fs @ [[]])"
    by simp
  also have "\<dots> = join_tab (butlast fs) @ [TAB]"
    using bne by (simp add: join_tab_snoc)
  finally show ?thesis
    by (simp add: ends_with_tab_def)
qed

lemma process_header_twice:
  assumes ok: "process_header T [] h = Inr (idxs, h')"
    and piv: "find_format (read_tokens TAB h) 0 = Some p"
    and T: "[] \<notin> T"
  shows "process_header T [] h' = Inr ([p + 1..<p + 1 + length idxs], h')"
proof -
  let ?flds = "read_tokens TAB h"
  let ?sel = "filter (\<lambda>f. f \<in> T) (drop (p + 1) ?flds)"
  let ?out = "take (p + 1) ?flds @ ?sel"
  from piv have p: "p < length ?flds" "?flds ! p = ''FORMAT''" "\<forall>j<p. ?flds ! j \<noteq> ''FORMAT''"
    by (auto simp: find_format_Some)
  from ok piv have idxs: "idxs = filter (\<lambda>j. ?flds ! j \<in> T) [p + 1..<length ?flds]"
    and ne: "idxs \<noteq> []"
    and h': "h' = join_tab (take (p + 1) ?flds @ map ((!) ?flds) idxs)"
    by (auto simp: process_header_eq Let_def split: if_splits)
  have sel: "map ((!) ?flds) idxs = ?sel"
    unfolding idxs by (rule selected_fields_eq)
  then have len_sel: "length ?sel = length idxs"
    by (metis length_map)
  with ne have sel_ne: "?sel \<noteq> []"
    by auto
  have h'_out: "h' = join_tab ?out"
    using h' sel by simp
  have "last ?out = last ?sel"
    using sel_ne by simp
  moreover have "last ?sel \<in> set ?sel"
    using sel_ne by (rule last_in_set)
  ultimately have "last ?out \<in> T"
    by auto
  with T have last_ne: "last ?out \<noteq> []"
    by auto
  have "\<forall>f \<in> set ?flds. TAB \<notin> set f"
    by (auto dest: read_tokens_no_delim)
  then have "\<forall>f \<in> set ?out. TAB \<notin> set f"
    by (auto dest: in_set_takeD in_set_dropD)
  with last_ne have toks: "read_tokens TAB h' = ?out"
    unfolding h'_out by (simp add: read_tokens_join_tab)
  have len_take: "length (take (p + 1) ?flds) = p + 1"
    using p(1) by simp
  have len_out: "length ?out = p + 1 + length idxs"
    using len_take len_sel by simp
  have nth_low: "?out ! j = ?flds ! j" if "j \<le> p" for j
    using that len_take by (simp add: nth_append)
  have piv': "find_format ?out 0 = Some p"
    using p nth_low len_out by (simp add: find_format_Some)
  have in_T: "?out ! j \<in> T" if "p + 1 \<le> j" "j < length ?out" for j
  proof -
    from that len_take have "?out ! j = ?sel ! (j - (p + 1))"
      by (simp add: nth_append)
    moreover from that len_take have "j - (p + 1) < length ?sel"
      by simp
    ultimately have "?out ! j \<in> set ?sel"
      by (metis nth_mem)
    then show ?thesis
      by simp
  qed
  then have matched: "filter (\<lambda>j. ?out ! j \<in> T) [p + 1..<length ?out] = [p + 1..<length ?out]"
    by (simp add: filter_id_conv)
  have "map ((!) ?out) [p + 1..<length ?out] = drop (p + 1) ?out"
    by (rule drop_as_map_nth [symmetric])
  also have "\<dots> = ?sel"
    using len_take by simp
  finally have sel': "map ((!) ?out) [p + 1..<length ?out] = ?sel" .
  have take': "take (p + 1) ?out = take (p + 1) ?flds"
    using len_take by simp
  have up: "[p + 1..<length ?out] \<noteq> []"
    using len_out ne by (cases idxs) auto
  have "process_header T [] h' = Inr ([p + 1..<length ?out], join_tab ?out)"
    unfolding process_header_eq [of T "[]" h'] toks piv' option.case Let_def matched
      append_Nil sel' take'
    using up by (simp only: if_False)
  then show ?thesis
    by (simp only: len_out h'_out)
qed

lemma process_data_line_twice:
  assumes nt: "\<not> ends_with_tab (process_data_line idxs d)"
  shows "process_data_line [9..<9 + length idxs] (process_data_line idxs d) = process_data_line idxs d"
proof (cases "length (read_tokens TAB d) < 9")
  case True
  then show ?thesis
    by (simp add: process_data_line_short)
next
  case False
  let ?flds = "read_tokens TAB d"
  let ?out = "take 9 ?flds @ map (\<lambda>idx. if idx < length ?flds then ?flds ! idx else ''.'') idxs"
  from False have long: "9 \<le> length ?flds"
    by simp
  then have d': "process_data_line idxs d = join_tab ?out"
    by (rule process_data_line_long)
  have len: "length ?out = 9 + length idxs"
    using long by simp
  have "\<forall>f \<in> set ?flds. TAB \<notin> set f"
    by (auto dest: read_tokens_no_delim)
  then have tabfree: "\<forall>f \<in> set ?out. TAB \<notin> set f"
    by (auto dest: in_set_takeD)
  have "last ?out \<noteq> []"
  proof
    assume "last ?out = []"
    moreover have "2 \<le> length ?out"
      using len by simp
    ultimately have "ends_with_tab (join_tab ?out)"
      by (rule join_tab_last_empty [rotated])
    with nt d' show False
      by simp
  qed
  with tabfree have toks: "read_tokens TAB (join_tab ?out) = ?out"
    by (simp add: read_tokens_join_tab)
  have long': "9 \<le> length (read_tokens TAB (join_tab ?out))"
    unfolding toks using len by simp
  have "map (\<lambda>idx. if idx < length ?out then ?out ! idx else ''.'') [9..<9 + length idxs]
          = map ((!) ?out) [9..<length ?out]"
    unfolding len by (rule map_cong) auto
  also have "\<dots> = drop 9 ?out"
    by (rule drop_as_map_nth [symmetric])
  finally have "take 9 ?out @ map (\<lambda>idx. if idx < length ?out then ?out ! idx else ''.'') [9..<9 + length idxs]
          = ?out"
    by (metis append_take_drop_id)
  then have "process_data_line [9..<9 + length idxs] (join_tab ?out) = join_tab ?out"
    unfolding process_data_line_long [OF long'] toks by simp
  then show ?thesis
    unfolding d' .
qed

text \<open>
  C7, as the code has it. When the empty name is not a target, a rewritten header is
  rewritten to itself, and the indices recorded on this second pass are the positions
  right after the pivot. When moreover the pivot is the ninth field (position 8) and a
  projected data line does not end with a tab (its last field is not empty), projecting
  it again with the indices of the second pass gives it back unchanged.
\<close>

theorem filtering_twice:
  assumes "process_header T [] h = Inr (idxs, h')"
    and "find_format (read_tokens TAB h) 0 = Some p"
    and "[] \<notin> T"
  shows "process_header T [] h' = Inr ([p + 1..<p + 1 + length idxs], h')
       \<and> (p = 8 \<and> \<not> ends_with_tab (process_data_line idxs d)
          \<longrightarrow> process_data_line [p + 1..<p + 1 + length idxs] (process_data_line idxs d)
                = process_data_line idxs d)"
  using process_header_twice [OF assms] process_data_line_twice [of idxs d]
  by simp


theorem filtering_twice_witness:
  "process_header {''B''} []
     (join_tab [''#CHROM'', ''POS'', ''ID'', ''REF'', ''ALT'', ''QUAL'', ''FILTER'', ''INFO'',
                ''FORMAT'', ''B''])
   = Inr ([9], join_tab [''#CHROM'', ''POS'', ''ID'', ''REF'', ''ALT'', ''QUAL'', ''FILTER'',
                         ''INFO'', ''FORMAT'', ''B''])
   \<and> process_data_line [9]
       (join_tab [''1'', ''100'', ''rs1'', ''A'', ''T'', ''50'', ''PASS'', ''DP=7'', ''GT'', ''0/1''])
     = join_tab [''1'', ''100'', ''rs1'', ''A'', ''T'', ''50'', ''PASS'', ''DP=7'', ''GT'', ''0/1'']"
proof -
  let ?h = "join_tab [''#CHROM'', ''POS'', ''ID'', ''REF'', ''ALT'', ''QUAL'', ''FILTER'', ''INFO'',
                ''FORMAT'', ''A'', ''B'', ''C'']"
  let ?d = "join_tab [''1'', ''100'', ''rs1'', ''A'', ''T'', ''50'', ''PASS'', ''DP=7'', ''GT'',
                ''0/0'', ''0/1'', ''1/1'']"
  have hdr: "process_header {''B''} [] ?h =
      Inr ([10], join_tab [''#CHROM'', ''POS'', ''ID'', ''REF'', ''ALT'', ''QUAL'', ''FILTER'',
                           ''INFO'', ''FORMAT'', ''B''])"
    by (simp add: process_header_eq find_format.simps upt_rec)
  have piv: "find_format (read_tokens TAB ?h) 0 = Some 8"
    by (simp add: find_format.simps)
  have T: "[] \<notin> {''B''}"
    by simp
  have d1: "process_data_line [10] ?d =
      join_tab [''1'', ''100'', ''rs1'', ''A'', ''T'', ''50'', ''PASS'', ''DP=7'', ''GT'', ''0/1'']"
    by (simp add: process_data_line_long)
  have nt: "\<not> ends_with_tab (process_data_line [10] ?d)"
    unfolding d1 by (simp add: ends_with_tab_def)
  have up: "[8 + 1..<8 + 1 + length [10::nat]] = [9]"
    by (simp add: upt_rec)
  from filtering_twice [OF hdr piv T, where d = ?d] nt show ?thesis
    unfolding up d1 by simp
qed

text \<open>
  C7 as stated fails. With the standard header and the target \<open>A\<close>, a data line
  whose field for \<open>A\<close> is empty is projected to a line ending with a tab; the second
  pass does not read the empty last field and writes \<open>.\<close> in its place. And with
  \<open>FORMAT\<close> at position 1, data lines keep their first nine fields, so the second
  pass selects position 2 of a line whose selected field is at position 9.
\<close>

theorem filtering_twice_counterexample:
  "process_header {''A''} []
     (join_tab [''#CHROM'', ''POS'', ''ID'', ''REF'', ''ALT'', ''QUAL'', ''FILTER'', ''INFO'',
                ''FORMAT'', ''A'', ''B''])
   = Inr ([9], join_tab [''#CHROM'', ''POS'', ''ID'', ''REF'', ''ALT'', ''QUAL'', ''FILTER'',
                         ''INFO'', ''FORMAT'', ''A''])
   \<and> process_header {''A''} []
     (join_tab [''#CHROM'', ''POS'', ''ID'', ''REF'', ''ALT'', ''QUAL'', ''FILTER'', ''INFO'',
                ''FORMAT'', ''A''])
   = Inr ([9], join_tab [''#CHROM'', ''POS'', ''ID'', ''REF'', ''ALT'', ''QUAL'', ''FILTER'',
                         ''INFO'', ''FORMAT'', ''A''])
   \<and> process_data_line [9]
       (join_tab [''1'', ''100'', ''rs1'', ''A'', ''T'', ''50'', ''PASS'', ''DP=7'', ''GT'', [], ''0/1''])
     = join_tab [''1'', ''100'', ''rs1'', ''A'', ''T'', ''50'', ''PASS'', ''DP=7'', ''GT'', []]
   \<and> process_data_line [9]
       (join_tab [''1'', ''100'', ''rs1'', ''A'', ''T'', ''50'', ''PASS'', ''DP=7'', ''GT'', []])
     = join_tab [''1'', ''100'', ''rs1'', ''A'', ''T'', ''50'', ''PASS'', ''DP=7'', ''GT'', ''.'']
   \<and> join_tab [''1'', ''100'', ''rs1'', ''A'', ''T'', ''50'', ''PASS'', ''DP=7'', ''GT'', ''.'']
     \<noteq> join_tab [''1'', ''100'', ''rs1'', ''A'', ''T'', ''50'', ''PASS'', ''DP=7'', ''GT'', []]
   \<and> process_header {''A''} [] (join_tab [''#CHROM'', ''FORMAT'', ''B'', ''A''])
     = Inr ([3], join_tab [''#CHROM'', ''FORMAT'', ''A''])
   \<and> process_header {''A''} [] (join_tab [''#CHROM'', ''FORMAT'', ''A''])
     = Inr ([2], join_tab [''#CHROM'', ''FORMAT'', ''A''])
   \<and> process_data_line [3]
       (join_tab [''c0'', ''c1'', ''c2'', ''c3'', ''c4'', ''c5'', ''c6'', ''c7'', ''c8'', ''c9''])
     = join_tab [''c0'', ''c1'', ''c2'', ''c3'', ''c4'', ''c5'', ''c6'', ''c7'', ''c8'', ''c3'']
   \<and> process_data_line [2]
       (join_tab [''c0'', ''c1'', ''c2'', ''c3'', ''c4'', ''c5'', ''c6'', ''c7'', ''c8'', ''c3''])
     = join_tab [''c0'', ''c1'', ''c2'', ''c3'', ''c4'', ''c5'', ''c6'', ''c7'', ''c8'', ''c2'']
   \<and> join_tab [''c0'', ''c1'', ''c2'', ''c3'', ''c4'', ''c5'', ''c6'', ''c7'', ''c8'', ''c2'']
     \<noteq> join_tab [''c0'', ''c1'', ''c2'', ''c3'', ''c4'', ''c5'', ''c6'', ''c7'', ''c8'', ''c3'']"
  by (simp add: process_header_eq find_format.simps upt_rec process_data_line_def write_fields_def)

section \<open>The pipeline\<close>

subsection \<open>The actions of the pipeline\<close>

lemma step_elim [consumes 1, case_names ReaderPush ReaderFinish WorkerPop WorkerExit Abort
    Process Raced WorkerPush MainSignal WriterOpenFail WriterPop WriterExit]:
  assumes "step e s = Some s'"
  obtains
    (ReaderPush) line rest where "e = ReaderPush" "aborted s = None" "unread s = line # rest"
      "\<not> finished_reading s" "length (input_queue s) < MAX_QUEUE_SIZE"
      "s' = s\<lparr>unread := rest, input_queue := input_queue s @ [line]\<rparr>"
  | (ReaderFinish) "e = ReaderFinish" "aborted s = None" "unread s = []" "\<not> finished_reading s"
      "s' = s\<lparr>finished_reading := True\<rparr>"
  | (WorkerPop) i line rest where "e = WorkerPop i" "aborted s = None" "i < length (workers s)"
      "workers s ! i = Waiting" "input_queue s = line # rest"
      "s' = s\<lparr>input_queue := rest, workers := (workers s)[i := Holding line]\<rparr>"
  | (WorkerExit) i where "e = WorkerExit i" "aborted s = None" "i < length (workers s)"
      "workers s ! i = Waiting" "input_queue s = []" "finished_reading s"
      "s' = s\<lparr>workers := (workers s)[i := Exited]\<rparr>"
  | (Abort) i line err where "e = WorkerProcess i" "aborted s = None" "i < length (workers s)"
      "workers s ! i = Holding line"
      "process_line (target_samples s) (sample_indices s) line = Inl err"
      "s' = s\<lparr>aborted := Some err\<rparr>"
  | (Process) i line idxs out where "e = WorkerProcess i" "aborted s = None"
      "i < length (workers s)" "workers s ! i = Holding line"
      "process_line (target_samples s) (sample_indices s) line = Inr (idxs, out)"
      "s' = s\<lparr>sample_indices := idxs, workers := (workers s)[i := Processed out]\<rparr>"
  | (Raced) i line idxs out where "e = WorkerProcessRaced i idxs out" "aborted s = None"
      "i < length (workers s)" "2 \<le> length (workers s)" "workers s ! i = Holding line"
      "s' = s\<lparr>sample_indices := idxs, workers := (workers s)[i := Processed out]\<rparr>"
  | (WorkerPush) i out where "e = WorkerPush i" "aborted s = None" "i < length (workers s)"
      "workers s ! i = Processed out" "length (output_queue s) < MAX_QUEUE_SIZE"
      "s' = s\<lparr>output_queue := output_queue s @ [out], workers := (workers s)[i := Waiting],
              lines_processed := lines_processed s + 1\<rparr>"
  | (MainSignal) "e = MainSignal" "aborted s = None" "finished_reading s"
      "list_all (\<lambda>w. w = Exited) (workers s)" "\<not> finished_processing s"
      "s' = s\<lparr>finished_processing := True\<rparr>"
  | (WriterOpenFail) "e = WriterOpenFail" "aborted s = None" "\<not> writer_exited s"
      "\<not> writer_failed s" "out_file s = []"
      "s' = s\<lparr>writer_failed := True\<rparr>"
  | (WriterPop) line rest where "e = WriterPop" "aborted s = None" "\<not> writer_exited s"
      "\<not> writer_failed s" "output_queue s = line # rest"
      "s' = s\<lparr>output_queue := rest, out_file := out_file s @ [line]\<rparr>"
  | (WriterExit) "e = WriterExit" "aborted s = None" "\<not> writer_exited s"
      "\<not> writer_failed s" "output_queue s = []" "finished_processing s"
      "s' = s\<lparr>writer_exited := True\<rparr>"
proof -
  from assms have a: "aborted s = None" and f: "fire e s = Some s'"
    by (auto simp: step_def split: if_splits)
  show thesis
  proof (cases e)
    case ReaderPush
    with a f that(1) show ?thesis
      by (auto split: list.splits if_splits)
  next
    case ReaderFinish
    with a f that(2) show ?thesis
      by (auto split: if_splits)
  next
    case (WorkerPop i)
    with a f that(3) show ?thesis
      by (auto split: list.splits if_splits)
  next
    case (WorkerExit i)
    with a f that(4) show ?thesis
      by (auto split: if_splits)
  next
    case (WorkerProcess i)
    with a f that(5,6) show ?thesis
      by (auto split: if_splits worker.splits sum.splits)
  next
    case (WorkerProcessRaced i idxs out)
    with a f that(7) show ?thesis
      by (auto split: if_splits worker.splits)
  next
    case (WorkerPush i)
    with a f that(8) show ?thesis
      by (auto split: if_splits worker.splits)
  next
    case MainSignal
    with a f that(9) show ?thesis
      by (auto split: if_splits)
  next
    case WriterOpenFail
    with a f that(10) show ?thesis
      by (auto split: if_splits)
  next
    case WriterPop
    with a f that(11) show ?thesis
      by (auto split: list.splits if_splits)
  next
    case WriterExit
    with a f that(12) show ?thesis
      by (auto split: if_splits)
  qed
qed

lemma run_induct:
  assumes "run es s0 = Some s" and "P s0"
    and "\<And>e s s'. P s \<Longrightarrow> step e s = Some s' \<Longrightarrow> P s'"
  shows "P s"
  using assms(1,2)
proof (induction es arbitrary: s0)
  case Nil
  then show ?case by simp
next
  case (Cons e es)
  from Cons.prems(1) obtain s1 where s1: "step e s0 = Some s1" and r: "run es s1 = Some s"
    by (auto split: option.splits)
  from assms(3) [OF Cons.prems(2) s1] have "P s1" .
  with Cons.IH r show ?case by blast
qed


subsection \<open>Flags and bounds\<close>

lemma Exited_in_update:
  "Exited \<in> set (ws[i := w]) \<Longrightarrow> w \<noteq> Exited \<Longrightarrow> Exited \<in> set ws"
  by (metis insertE set_update_subset_insert subsetD)

lemma all_Exited_nth:
  "list_all (\<lambda>w. w = Exited) ws \<Longrightarrow> i < length ws \<Longrightarrow> ws ! i = Exited"
  by (simp add: list_all_length)

lemma pipeline_inv_start: "pipeline_inv (start T n input)"
  by (simp add: pipeline_inv_def start_def list_all_length)

lemma pipeline_inv_step:
  assumes "pipeline_inv s" and "step e s = Some s'"
  shows "pipeline_inv s'"
  using assms(2)
proof (cases rule: step_elim)
  case (ReaderPush line rest)
  with assms(1) show ?thesis
    by (auto simp: pipeline_inv_def)
next
  case ReaderFinish
  with assms(1) show ?thesis
    by (auto simp: pipeline_inv_def)
next
  case (WorkerPop i line rest)
  with assms(1) show ?thesis
    by (auto simp: pipeline_inv_def dest: Exited_in_update all_Exited_nth)
next
  case (WorkerExit i)
  with assms(1) show ?thesis
    by (auto simp: pipeline_inv_def dest: all_Exited_nth)
next
  case (Abort i line err)
  with assms(1) show ?thesis
    by (auto simp: pipeline_inv_def)
next
  case (Process i line idxs out)
  with assms(1) show ?thesis
    by (auto simp: pipeline_inv_def dest: Exited_in_update all_Exited_nth)
next
  case (Raced i line idxs out)
  with assms(1) show ?thesis
    by (auto simp: pipeline_inv_def dest: Exited_in_update all_Exited_nth)
next
  case (WorkerPush i out)
  with assms(1) show ?thesis
    by (auto simp: pipeline_inv_def dest: Exited_in_update all_Exited_nth)
next
  case MainSignal
  with assms(1) show ?thesis
    by (auto simp: pipeline_inv_def)
next
  case WriterOpenFail
  with assms(1) show ?thesis
    by (auto simp: pipeline_inv_def)
next
  case (WriterPop line rest)
  with assms(1) show ?thesis
    by (auto simp: pipeline_inv_def)
next
  case WriterExit
  with assms(1) show ?thesis
    by (auto simp: pipeline_inv_def)
qed

lemma pipeline_inv_run:
  "run es (start T n input) = Some s \<Longrightarrow> pipeline_inv s"
  by (erule run_induct) (auto intro: pipeline_inv_start pipeline_inv_step)

lemma workers_length_step: "step e s = Some s' \<Longrightarrow> length (workers s') = length (workers s)"
  by (cases rule: step_elim) auto

lemma workers_length_run:
  "run es (start T n input) = Some s \<Longrightarrow> length (workers s) = n"
  by (erule run_induct) (auto simp: start_def workers_length_step)

lemma target_samples_step: "step e s = Some s' \<Longrightarrow> target_samples s' = target_samples s"
  by (cases rule: step_elim) auto

lemma target_samples_run:
  "run es (start T n input) = Some s \<Longrightarrow> target_samples s = T"
  by (erule run_induct) (auto simp: start_def target_samples_step)

subsection \<open>No record is lost or duplicated\<close>

lemma sum_list_update:
  "i < length ws \<Longrightarrow> sum_list (map f (ws[i := w])) + f (ws ! i) = sum_list (map f ws) + (f w :: nat)"
proof (induction ws arbitrary: i)
  case Nil
  then show ?case by simp
next
  case (Cons a ws)
  then show ?case by (cases i) auto
qed

lemma records_step:
  assumes "step e s = Some s'"
  shows "records s' = records s"
  using assms
proof (cases rule: step_elim)
  case (WorkerPop i line rest)
  with sum_list_update [of i "workers s" in_hand "Holding line"] show ?thesis
    by (simp add: records_def in_hand_def)
next
  case (WorkerExit i)
  with sum_list_update [of i "workers s" in_hand Exited] show ?thesis
    by (simp add: records_def in_hand_def)
next
  case (Process i line idxs out)
  with sum_list_update [of i "workers s" in_hand "Processed out"] show ?thesis
    by (simp add: records_def in_hand_def)
next
  case (Raced i line idxs out)
  with sum_list_update [of i "workers s" in_hand "Processed out"] show ?thesis
    by (simp add: records_def in_hand_def)
next
  case (WorkerPush i out)
  with sum_list_update [of i "workers s" in_hand Waiting] show ?thesis
    by (simp add: records_def in_hand_def)
qed (simp_all add: records_def)

lemma records_start: "records (start T n input) = length input"
  by (simp add: records_def start_def in_hand_def)

lemma records_run:
  "run es (start T n input) = Some s \<Longrightarrow> records s = length input"
  by (erule run_induct) (auto simp: records_start records_step)

subsection \<open>When the writer has left\<close>

lemma sum_list_all_Exited:
  "list_all (\<lambda>w. w = Exited) ws \<Longrightarrow> sum_list (map in_hand ws) = 0"
  by (induction ws) (auto simp: in_hand_def)

lemma concat_all_Exited:
  "list_all (\<lambda>w. w = Exited) ws \<Longrightarrow>
     concat (map processed_of ws) = [] \<and> concat (map held_of ws) = []"
  by (induction ws) auto

lemma writer_exited_drained:
  assumes inv: "pipeline_inv s" and n: "workers s \<noteq> []" and we: "writer_exited s"
  shows "unread s = [] \<and> input_queue s = [] \<and> output_queue s = []
         \<and> list_all (\<lambda>w. w = Exited) (workers s)"
proof -
  from inv we have fp: "finished_processing s" and oq: "output_queue s = []"
    by (auto simp: pipeline_inv_def)
  with inv have fr: "finished_reading s" and ex: "list_all (\<lambda>w. w = Exited) (workers s)"
    by (auto simp: pipeline_inv_def)
  from ex n have "Exited \<in> set (workers s)"
    by (cases "workers s") auto
  with inv fr have "input_queue s = []" "unread s = []"
    by (auto simp: pipeline_inv_def)
  with oq ex show ?thesis
    by simp
qed

lemma writer_exited_all_written:
  assumes r: "run es (start T n input) = Some s" and n: "1 \<le> n" and we: "writer_exited s"
  shows "length (out_file s) = length input"
proof -
  have "workers s \<noteq> []"
    using workers_length_run [OF r] n by auto
  from writer_exited_drained [OF pipeline_inv_run [OF r] this we]
  have e: "unread s = []" "input_queue s = []" "output_queue s = []"
    and ex: "list_all (\<lambda>w. w = Exited) (workers s)"
    by simp_all
  from records_run [OF r] e sum_list_all_Exited [OF ex] show ?thesis
    by (simp add: records_def)
qed

subsection \<open>One worker: the output is in input order\<close>

lemma in_order_view_step:
  assumes one: "length (workers s) = 1" and st: "step e s = Some s'"
  shows "in_order_view s' = in_order_view s"
proof -
  from one obtain w where ws: "workers s = [w]"
    by (cases "workers s") auto
  from st show ?thesis
  proof (cases rule: step_elim)
    case (ReaderPush line rest)
    then show ?thesis by (simp add: in_order_view_def)
  next
    case ReaderFinish
    then show ?thesis by (simp add: in_order_view_def)
  next
    case (WorkerPop i line rest)
    with ws show ?thesis by (simp add: in_order_view_def)
  next
    case (WorkerExit i)
    with ws show ?thesis by (simp add: in_order_view_def)
  next
    case (Abort i line err)
    then show ?thesis by (simp add: in_order_view_def)
  next
    case (Process i line idxs out)
    with ws show ?thesis by (simp add: in_order_view_def)
  next
    case (Raced i line idxs out)
    with one show ?thesis by simp
  next
    case (WorkerPush i out)
    with ws show ?thesis by (simp add: in_order_view_def)
  next
    case MainSignal
    then show ?thesis by (simp add: in_order_view_def)
  next
    case WriterOpenFail
    then show ?thesis by (simp add: in_order_view_def)
  next
    case (WriterPop line rest)
    then show ?thesis by (simp add: in_order_view_def)
  next
    case WriterExit
    then show ?thesis by (simp add: in_order_view_def)
  qed
qed

lemma in_order_view_run:
  assumes "run es (start T 1 input) = Some s"
  shows "in_order_view s = process_in_order T [] input"
proof -
  have "length (workers s) = 1 \<and> in_order_view s = process_in_order T [] input"
    using assms
  proof (rule run_induct)
    show "length (workers (start T 1 input)) = 1
          \<and> in_order_view (start T 1 input) = process_in_order T [] input"
      by (simp add: start_def in_order_view_def)
  next
    fix e s s'
    assume "length (workers s) = 1 \<and> in_order_view s = process_in_order T [] input"
      and "step e s = Some s'"
    then show "length (workers s') = 1 \<and> in_order_view s' = process_in_order T [] input"
      using workers_length_step [of e s s'] in_order_view_step [of s e s'] by simp
  qed
  then show ?thesis ..
qed

lemma single_worker_output:
  assumes r: "run es (start T 1 input) = Some s"
  shows "take (length (out_file s)) (process_in_order T [] input) = out_file s"
    and "writer_exited s \<Longrightarrow> out_file s = process_in_order T [] input"
proof -
  from in_order_view_run [OF r]
  have v: "process_in_order T [] input = out_file s @ output_queue s @ concat (map processed_of (workers s))
     @ process_in_order (target_samples s) (sample_indices s)
         (concat (map held_of (workers s)) @ input_queue s @ unread s)"
    by (simp add: in_order_view_def)
  show "take (length (out_file s)) (process_in_order T [] input) = out_file s"
    by (subst v) simp
  assume we: "writer_exited s"
  have "workers s \<noteq> []"
    using workers_length_run [OF r] by auto
  from writer_exited_drained [OF pipeline_inv_run [OF r] this we]
  have d: "unread s = []" "input_queue s = []" "output_queue s = []"
    and ex: "list_all (\<lambda>w. w = Exited) (workers s)"
    by simp_all
  from concat_all_Exited [OF ex]
  have c: "concat (map processed_of (workers s)) = []" "concat (map held_of (workers s)) = []"
    by simp_all
  show "out_file s = process_in_order T [] input"
    unfolding v d c by simp
qed


subsection \<open>Lines that are not headers\<close>

lemma process_line_plain:
  "take 6 line \<noteq> ''#CHROM'' \<Longrightarrow> process_line T idxs line = Inr (idxs, pass_or_project idxs line)"
  by (simp add: process_line_def pass_or_project_def)

lemma process_in_order_plain:
  "\<forall>l \<in> set pre. take 6 l \<noteq> ''#CHROM'' \<Longrightarrow>
     process_in_order T idxs (pre @ rest) = map (pass_or_project idxs) pre @ process_in_order T idxs rest"
  by (induction pre) (simp_all add: process_line_plain)

lemma process_in_order_header:
  assumes "\<forall>l \<in> set pre. take 6 l \<noteq> ''#CHROM''" and "take 6 h = ''#CHROM''"
    and "\<forall>l \<in> set post. take 6 l \<noteq> ''#CHROM''"
    and "process_header T [] h = Inr (idxs, h')"
  shows "process_in_order T [] (pre @ h # post)
           = map (pass_or_project []) pre @ h' # map (pass_or_project idxs) post"
proof -
  have "process_line T [] h = Inr (idxs, h')"
    using assms(2,4) by (cases h) (auto simp: process_line_def)
  then have "process_in_order T [] (h # post) = h' # process_in_order T idxs (post @ [])"
    by simp
  also have "\<dots> = h' # map (pass_or_project idxs) post"
    using assms(3) by (subst process_in_order_plain) simp_all
  finally show ?thesis
    using assms(1) by (simp add: process_in_order_plain)
qed

subsection \<open>The reader at capacity\<close>



text \<open>
  C1, as the code has it. With one worker, whatever the schedule, the lines written so
  far are an initial part of the lines that processing the input in order gives, and
  once the writer has left they are all of them, one for each line of the input: the
  output is in input order. Nothing tags the records or reorders them at the writer, so
  this is a property of one worker.
\<close>

theorem single_worker_preserves_order:
  assumes "run es (start T 1 input) = Some s"
  shows "take (length (out_file s)) (process_in_order T [] input) = out_file s
       \<and> (writer_exited s \<longrightarrow>
            out_file s = process_in_order T [] input \<and> length (out_file s) = length input)"
  using single_worker_output [OF assms] writer_exited_all_written [OF assms] by simp

text \<open>
  C2, as the code has it. The header is resolved by the worker that pops it, a line like
  any other. With one worker and an input whose only line starting with \<open>#CHROM\<close>
  is the header, a finished run has written: the lines before the header, passed through
  or projected with no index recorded; then the rewritten header, at the header's place
  in the input; then the lines after it, passed through or projected with the indices
  the header gave.
\<close>

theorem header_resolved_in_line_order:
  assumes "run es (start T 1 (pre @ h # post)) = Some s" and "writer_exited s"
    and "\<forall>l \<in> set pre. take 6 l \<noteq> ''#CHROM''" and "take 6 h = ''#CHROM''"
    and "\<forall>l \<in> set post. take 6 l \<noteq> ''#CHROM''"
    and "process_header T [] h = Inr (idxs, h')"
  shows "out_file s = map (pass_or_project []) pre @ h' # map (pass_or_project idxs) post"
  using single_worker_output(2) [OF assms(1,2)] process_in_order_header [OF assms(3-6)]
  by simp

subsection \<open>The history of the queues\<close>





text \<open>Evaluation of a run on given lines.\<close>

lemmas eval_pipeline = step_def start_def MAX_QUEUE_SIZE_def process_line_def process_header_eq
  find_format.simps upt_rec process_data_line_def write_fields_def

theorem single_worker_preserves_order_witness:
  "map_option out_file
     (run [ReaderPush, WorkerPop 0, WorkerProcess 0, ReaderPush, ReaderPush, WorkerPush 0,
           WorkerPop 0, WriterPop, WorkerProcess 0, WorkerPush 0, WorkerPop 0, WorkerProcess 0,
           ReaderFinish, WorkerPush 0, WorkerExit 0, WriterPop, MainSignal, WriterPop, WriterExit]
        (start {''S2''} 1
           [join_tab [''#CHROM'', ''POS'', ''ID'', ''REF'', ''ALT'', ''QUAL'', ''FILTER'', ''INFO'',
                      ''FORMAT'', ''S1'', ''S2''],
            join_tab [''1'', ''100'', ''rs1'', ''A'', ''T'', ''50'', ''PASS'', ''DP=7'', ''GT'',
                      ''0/0'', ''0/1''],
            join_tab [''1'', ''200'', ''rs2'', ''G'', ''C'', ''60'', ''PASS'', ''DP=9'', ''GT'',
                      ''1/1'', ''0/0'']]))
   = Some (process_in_order {''S2''} []
           [join_tab [''#CHROM'', ''POS'', ''ID'', ''REF'', ''ALT'', ''QUAL'', ''FILTER'', ''INFO'',
                      ''FORMAT'', ''S1'', ''S2''],
            join_tab [''1'', ''100'', ''rs1'', ''A'', ''T'', ''50'', ''PASS'', ''DP=7'', ''GT'',
                      ''0/0'', ''0/1''],
            join_tab [''1'', ''200'', ''rs2'', ''G'', ''C'', ''60'', ''PASS'', ''DP=9'', ''GT'',
                      ''1/1'', ''0/0'']])"
proof -
  let ?es = "[ReaderPush, WorkerPop 0, WorkerProcess 0, ReaderPush, ReaderPush, WorkerPush 0,
           WorkerPop 0, WriterPop, WorkerProcess 0, WorkerPush 0, WorkerPop 0, WorkerProcess 0,
           ReaderFinish, WorkerPush 0, WorkerExit 0, WriterPop, MainSignal, WriterPop, WriterExit]"
  let ?input = "[join_tab [''#CHROM'', ''POS'', ''ID'', ''REF'', ''ALT'', ''QUAL'', ''FILTER'', ''INFO'',
                      ''FORMAT'', ''S1'', ''S2''],
            join_tab [''1'', ''100'', ''rs1'', ''A'', ''T'', ''50'', ''PASS'', ''DP=7'', ''GT'',
                      ''0/0'', ''0/1''],
            join_tab [''1'', ''200'', ''rs2'', ''G'', ''C'', ''60'', ''PASS'', ''DP=9'', ''GT'',
                      ''1/1'', ''0/0'']]"
  have "case run ?es (start {''S2''} 1 ?input) of None \<Rightarrow> False | Some s \<Rightarrow> writer_exited s"
    by (simp add: eval_pipeline)
  then obtain s where r: "run ?es (start {''S2''} 1 ?input) = Some s" and we: "writer_exited s"
    by (auto split: option.splits)
  from single_worker_preserves_order [OF r] we
  have "out_file s = process_in_order {''S2''} [] ?input"
    by simp
  with r show ?thesis
    by simp
qed

text \<open>
  C1 as stated fails: with eight workers, worker 0 pops the first data line and worker 1
  the second, worker 1 pushes its result first, and the run ends with the two data lines
  written in the opposite order; with one worker the same input is written in input
  order.
\<close>

theorem worker_count_changes_order_counterexample:
  "map_option (\<lambda>s. (writer_exited s, out_file s))
     (run [ReaderPush, ReaderPush, ReaderPush, WorkerPop 0, WorkerProcess 0, WorkerPush 0,
           WorkerPop 0, WorkerPop 1, WorkerProcess 1, WorkerPush 1, WorkerProcess 0, WorkerPush 0,
           WriterPop, WriterPop, WriterPop, ReaderFinish,
           WorkerExit 0, WorkerExit 1, WorkerExit 2, WorkerExit 3, WorkerExit 4, WorkerExit 5,
           WorkerExit 6, WorkerExit 7, MainSignal, WriterExit]
        (start {''S2''} 8
           [join_tab [''#CHROM'', ''POS'', ''ID'', ''REF'', ''ALT'', ''QUAL'', ''FILTER'', ''INFO'',
                      ''FORMAT'', ''S1'', ''S2''],
            join_tab [''1'', ''100'', ''rs1'', ''A'', ''T'', ''50'', ''PASS'', ''DP=7'', ''GT'',
                      ''0/0'', ''0/1''],
            join_tab [''1'', ''200'', ''rs2'', ''G'', ''C'', ''60'', ''PASS'', ''DP=9'', ''GT'',
                      ''1/1'', ''0/0'']]))
   = Some (True,
           [join_tab [''#CHROM'', ''POS'', ''ID'', ''REF'', ''ALT'', ''QUAL'', ''FILTER'', ''INFO'',
                      ''FORMAT'', ''S2''],
            join_tab [''1'', ''200'', ''rs2'', ''G'', ''C'', ''60'', ''PASS'', ''DP=9'', ''GT'', ''0/0''],
            join_tab [''1'', ''100'', ''rs1'', ''A'', ''T'', ''50'', ''PASS'', ''DP=7'', ''GT'', ''0/1'']])
   \<and> map_option (\<lambda>s. (writer_exited s, out_file s))
     (run [ReaderPush, ReaderPush, ReaderPush, WorkerPop 0, WorkerProcess 0, WorkerPush 0,
           WorkerPop 0, WorkerProcess 0, WorkerPush 0, WorkerPop 0, WorkerProcess 0, WorkerPush 0,
           WriterPop, WriterPop, WriterPop, ReaderFinish, WorkerExit 0, MainSignal, WriterExit]
        (start {''S2''} 1
           [join_tab [''#CHROM'', ''POS'', ''ID'', ''REF'', ''ALT'', ''QUAL'', ''FILTER'', ''INFO'',
                      ''FORMAT'', ''S1'', ''S2''],
            join_tab [''1'', ''100'', ''rs1'', ''A'', ''T'', ''50'', ''PASS'', ''DP=7'', ''GT'',
                      ''0/0'', ''0/1''],
            join_tab [''1'', ''200'', ''rs2'', ''G'', ''C'', ''60'', ''PASS'', ''DP=9'', ''GT'',
                      ''1/1'', ''0/0'']]))
   = Some (True,
           [join_tab [''#CHROM'', ''POS'', ''ID'', ''REF'', ''ALT'', ''QUAL'', ''FILTER'', ''INFO'',
                      ''FORMAT'', ''S2''],
            join_tab [''1'', ''100'', ''rs1'', ''A'', ''T'', ''50'', ''PASS'', ''DP=7'', ''GT'', ''0/1''],
            join_tab [''1'', ''200'', ''rs2'', ''G'', ''C'', ''60'', ''PASS'', ''DP=9'', ''GT'', ''0/0'']])
   \<and> join_tab [''1'', ''200'', ''rs2'', ''G'', ''C'', ''60'', ''PASS'', ''DP=9'', ''GT'', ''0/0'']
     \<noteq> join_tab [''1'', ''100'', ''rs1'', ''A'', ''T'', ''50'', ''PASS'', ''DP=7'', ''GT'', ''0/1'']"
  by (simp add: eval_pipeline numeral_eq_Suc)


theorem header_resolved_in_line_order_witness:
  "map_option out_file
     (run [ReaderPush, WorkerPop 0, WorkerProcess 0, ReaderPush, ReaderPush, WorkerPush 0,
           WorkerPop 0, WriterPop, WorkerProcess 0, WorkerPush 0, WorkerPop 0, WorkerProcess 0,
           ReaderFinish, WorkerPush 0, WorkerExit 0, WriterPop, MainSignal, WriterPop, WriterExit]
        (start {''S2''} 1
           [''##fileformat=VCFv4.2'',
            join_tab [''#CHROM'', ''POS'', ''ID'', ''REF'', ''ALT'', ''QUAL'', ''FILTER'', ''INFO'',
                      ''FORMAT'', ''S1'', ''S2''],
            join_tab [''1'', ''100'', ''rs1'', ''A'', ''T'', ''50'', ''PASS'', ''DP=7'', ''GT'',
                      ''0/0'', ''0/1'']]))
   = Some [''##fileformat=VCFv4.2'',
           join_tab [''#CHROM'', ''POS'', ''ID'', ''REF'', ''ALT'', ''QUAL'', ''FILTER'', ''INFO'',
                     ''FORMAT'', ''S2''],
           join_tab [''1'', ''100'', ''rs1'', ''A'', ''T'', ''50'', ''PASS'', ''DP=7'', ''GT'',
                     ''0/1'']]"
proof -
  let ?es = "[ReaderPush, WorkerPop 0, WorkerProcess 0, ReaderPush, ReaderPush, WorkerPush 0,
           WorkerPop 0, WriterPop, WorkerProcess 0, WorkerPush 0, WorkerPop 0, WorkerProcess 0,
           ReaderFinish, WorkerPush 0, WorkerExit 0, WriterPop, MainSignal, WriterPop, WriterExit]"
  let ?h = "join_tab [''#CHROM'', ''POS'', ''ID'', ''REF'', ''ALT'', ''QUAL'', ''FILTER'', ''INFO'',
                      ''FORMAT'', ''S1'', ''S2'']"
  let ?h' = "join_tab [''#CHROM'', ''POS'', ''ID'', ''REF'', ''ALT'', ''QUAL'', ''FILTER'', ''INFO'',
                      ''FORMAT'', ''S2'']"
  let ?d = "join_tab [''1'', ''100'', ''rs1'', ''A'', ''T'', ''50'', ''PASS'', ''DP=7'', ''GT'',
                      ''0/0'', ''0/1'']"
  have "case run ?es (start {''S2''} 1 ([''##fileformat=VCFv4.2''] @ ?h # [?d])) of
          None \<Rightarrow> False | Some s \<Rightarrow> writer_exited s"
    by (simp add: eval_pipeline)
  then obtain s where r: "run ?es (start {''S2''} 1 ([''##fileformat=VCFv4.2''] @ ?h # [?d])) = Some s"
    and we: "writer_exited s"
    by (auto split: option.splits)
  have pre: "\<forall>l \<in> set [''##fileformat=VCFv4.2'']. take 6 l \<noteq> ''#CHROM''"
    by simp
  have h: "take 6 ?h = ''#CHROM''"
    by simp
  have post: "\<forall>l \<in> set [?d]. take 6 l \<noteq> ''#CHROM''"
    by simp
  have ph: "process_header {''S2''} [] ?h = Inr ([10], ?h')"
    by (simp add: eval_pipeline)
  from header_resolved_in_line_order [OF r we pre h post ph]
  have "out_file s = [''##fileformat=VCFv4.2'', ?h',
      join_tab [''1'', ''100'', ''rs1'', ''A'', ''T'', ''50'', ''PASS'', ''DP=7'', ''GT'', ''0/1'']]"
    by (simp add: pass_or_project_def eval_pipeline)
  with r show ?thesis
    by simp
qed

text \<open>
  C2 as stated fails. With two workers, worker 0 holds the header while worker 1 projects
  the data line that follows it: no index is recorded yet, the line is cut to its nine
  leading fields, and the finished run has written it so. And with one worker, a comment
  line before the header is written before the rewritten header.
\<close>

theorem header_resolution_counterexample:
  "map_option (\<lambda>s. (sample_indices s, workers s))
     (run [ReaderPush, ReaderPush, WorkerPop 0, WorkerPop 1, WorkerProcess 1]
        (start {''S2''} 2
           [join_tab [''#CHROM'', ''POS'', ''ID'', ''REF'', ''ALT'', ''QUAL'', ''FILTER'', ''INFO'',
                      ''FORMAT'', ''S1'', ''S2''],
            join_tab [''1'', ''100'', ''rs1'', ''A'', ''T'', ''50'', ''PASS'', ''DP=7'', ''GT'',
                      ''0/0'', ''0/1'']]))
   = Some ([],
           [Holding (join_tab [''#CHROM'', ''POS'', ''ID'', ''REF'', ''ALT'', ''QUAL'', ''FILTER'',
                               ''INFO'', ''FORMAT'', ''S1'', ''S2'']),
            Processed (join_tab [''1'', ''100'', ''rs1'', ''A'', ''T'', ''50'', ''PASS'', ''DP=7'',
                                 ''GT''])])
   \<and> map_option (\<lambda>s. (writer_exited s, out_file s))
     (run [ReaderPush, ReaderPush, WorkerPop 0, WorkerPop 1, WorkerProcess 1, WorkerProcess 0,
           WorkerPush 0, WorkerPush 1, WriterPop, WriterPop, ReaderFinish, WorkerExit 0,
           WorkerExit 1, MainSignal, WriterExit]
        (start {''S2''} 2
           [join_tab [''#CHROM'', ''POS'', ''ID'', ''REF'', ''ALT'', ''QUAL'', ''FILTER'', ''INFO'',
                      ''FORMAT'', ''S1'', ''S2''],
            join_tab [''1'', ''100'', ''rs1'', ''A'', ''T'', ''50'', ''PASS'', ''DP=7'', ''GT'',
                      ''0/0'', ''0/1'']]))
   = Some (True,
           [join_tab [''#CHROM'', ''POS'', ''ID'', ''REF'', ''ALT'', ''QUAL'', ''FILTER'', ''INFO'',
                      ''FORMAT'', ''S2''],
            join_tab [''1'', ''100'', ''rs1'', ''A'', ''T'', ''50'', ''PASS'', ''DP=7'', ''GT'']])
   \<and> map_option (\<lambda>s. (writer_exited s, out_file s))
     (run [ReaderPush, ReaderPush, WorkerPop 0, WorkerProcess 0, WorkerPush 0, WriterPop,
           WorkerPop 0, WorkerProcess 0, WorkerPush 0, WriterPop, ReaderFinish, WorkerExit 0,
           MainSignal, WriterExit]
        (start {''S2''} 1
           [''##fileformat=VCFv4.2'',
            join_tab [''#CHROM'', ''POS'', ''ID'', ''REF'', ''ALT'', ''QUAL'', ''FILTER'', ''INFO'',
                      ''FORMAT'', ''S1'', ''S2'']]))
   = Some (True,
           [''##fileformat=VCFv4.2'',
            join_tab [''#CHROM'', ''POS'', ''ID'', ''REF'', ''ALT'', ''QUAL'', ''FILTER'', ''INFO'',
                      ''FORMAT'', ''S2'']])"
  by (simp add: eval_pipeline numeral_eq_Suc)



end
